theory Spec2Isabelle
  imports Main "HOL-Library.Word"
begin

section \<open>Host values\<close>

text \<open>
  The library keys its containers by JavaScript values. A value is modelled by its kind
  and, for an object, by a reference number that stands for its identity: two objects
  with the same bytes but different reference numbers are different allocations.

  A string is the sequence of its 16-bit code units. The memory behind an
  \<open>ArrayBuffer\<close> or a \<open>SharedArrayBuffer\<close> is a \<open>backing\<close>: its identity, whether it
  is shared, and its bytes. A \<open>Buffer\<close>, a typed array or a \<open>DataView\<close> is a window
  on a backing store, with the three fields the source reads: \<open>key.buffer\<close>,
  \<open>key.byteOffset\<close> and \<open>key.byteLength\<close>. The library never writes to a key, and the
  specification leaves mutation of a key after insertion to the caller, so the bytes are
  part of the value.
\<close>

type_synonym byte = "8 word"

type_synonym jsstring = "16 word list"

datatype backing = Backing (store_ref: nat) (shared: bool) (contents: "byte list")

record view =
  buffer :: backing
  byteOffset :: nat
  byteLength :: nat

datatype jsval =
    JUndefined
  | JNull
  | JBoolean bool
  | JNumber int
  | JString jsstring
  | JFunction nat
  | JObject nat
  | JArrayBuffer backing
  | JBuffer nat view
  | JView nat view

datatype error = TypeError string | RangeError string

text \<open>\<open>typeof x\<close>, on the kinds of value above.\<close>

fun typeof :: "jsval \<Rightarrow> string" where
  "typeof JUndefined = ''undefined''"
| "typeof JNull = ''object''"
| "typeof (JBoolean b) = ''boolean''"
| "typeof (JNumber n) = ''number''"
| "typeof (JString s) = ''string''"
| "typeof (JFunction f) = ''function''"
| "typeof (JObject r) = ''object''"
| "typeof (JArrayBuffer b) = ''object''"
| "typeof (JBuffer r v) = ''object''"
| "typeof (JView r v) = ''object''"

text \<open>\<open>Buffer.isBuffer(key)\<close>, \<open>ArrayBuffer.isView(key)\<close> and the two \<open>instanceof\<close> tests.
  A \<open>Buffer\<close> is a \<open>Uint8Array\<close>, so it is a view as well.\<close>

fun Buffer_isBuffer :: "jsval \<Rightarrow> bool" where
  "Buffer_isBuffer (JBuffer r v) = True"
| "Buffer_isBuffer key = False"

fun ArrayBuffer_isView :: "jsval \<Rightarrow> bool" where
  "ArrayBuffer_isView (JBuffer r v) = True"
| "ArrayBuffer_isView (JView r v) = True"
| "ArrayBuffer_isView key = False"

fun instanceof_ArrayBuffer :: "jsval \<Rightarrow> bool" where
  "instanceof_ArrayBuffer (JArrayBuffer b) = (\<not> shared b)"
| "instanceof_ArrayBuffer key = False"

fun instanceof_SharedArrayBuffer :: "jsval \<Rightarrow> bool" where
  "instanceof_SharedArrayBuffer (JArrayBuffer b) = shared b"
| "instanceof_SharedArrayBuffer key = False"

text \<open>
  \<open>Buffer.from(arrayBuffer, byteOffset, length)\<close> makes a \<open>Buffer\<close> on the same memory.
  Node refuses a window that does not lie inside the memory with a \<open>RangeError\<close>
  (its message is given here without the quotation marks around the argument's name).
  The \<open>Buffer\<close> made here never leaves \<open>encode\<close>, so its identity is not modelled.
\<close>

definition Buffer_from :: "backing \<Rightarrow> nat \<Rightarrow> nat \<Rightarrow> error + view" where
  "Buffer_from ab off len =
     (if length (contents ab) < off then Inl (RangeError ''offset is outside of buffer bounds'')
      else if length (contents ab) - off < len
        then Inl (RangeError ''length is outside of buffer bounds'')
      else Inr \<lparr>buffer = ab, byteOffset = off, byteLength = len\<rparr>)"

text \<open>
  \<open>buf.toString(encoding)\<close> for the two encodings the source asks for. \<open>'binary'\<close> is
  Node's name for latin1: every byte becomes the code unit of the same number.
  \<open>'hex'\<close> writes every byte as two lower-case hexadecimal digits.
\<close>

datatype encoding = Binary | Hex

definition slice_bytes :: "view \<Rightarrow> byte list" where
  "slice_bytes v = take (byteLength v) (drop (byteOffset v) (contents (buffer v)))"

definition latin1 :: "byte list \<Rightarrow> jsstring" where
  "latin1 bs = map ucast bs"

definition hexdigit :: "nat \<Rightarrow> 16 word" where
  "hexdigit d = (if d < 10 then of_nat (48 + d) else of_nat (87 + d))"

definition hex :: "byte list \<Rightarrow> jsstring" where
  "hex bs = concat (map (\<lambda>b. [hexdigit (unat b div 16), hexdigit (unat b mod 16)]) bs)"

fun Buffer_toString :: "view \<Rightarrow> encoding \<Rightarrow> jsstring" where
  "Buffer_toString v Binary = latin1 (slice_bytes v)"
| "Buffer_toString v Hex = hex (slice_bytes v)"

section \<open>The helpers of \<open>lib/buffer-map.js\<close>\<close>

text \<open>
  \<open>HAS_SHARED_ARRAY_BUFFER\<close> is \<open>typeof SharedArrayBuffer === 'function'\<close>, a fact about
  the host. The functions below take it as their first argument.
\<close>

definition isArrayBuffer :: "bool \<Rightarrow> jsval \<Rightarrow> bool" where
  "isArrayBuffer HAS_SHARED_ARRAY_BUFFER key =
     (if instanceof_ArrayBuffer key then True
      else if HAS_SHARED_ARRAY_BUFFER then
        (if instanceof_SharedArrayBuffer key then True else False)
      else False)"

fun toBuffer :: "bool \<Rightarrow> jsval \<Rightarrow> error + view" where
  "toBuffer h (JBuffer r v) = Buffer_from (buffer v) (byteOffset v) (byteLength v)"
| "toBuffer h (JView r v) = Buffer_from (buffer v) (byteOffset v) (byteLength v)"
| "toBuffer h (JArrayBuffer b) =
     (if isArrayBuffer h (JArrayBuffer b) then Buffer_from b 0 (length (contents b))
      else Inl (TypeError ''Non-buffer passed to buffer map/set.''))"
| "toBuffer h key = Inl (TypeError ''Non-buffer passed to buffer map/set.'')"

fun encode :: "bool \<Rightarrow> jsval \<Rightarrow> encoding \<Rightarrow> error + jsstring" where
  "encode h (JBuffer r v) enc = Inr (Buffer_toString v enc)"
| "encode h key enc =
     (case toBuffer h key of
        Inl e \<Rightarrow> Inl e
      | Inr b \<Rightarrow> Inr (Buffer_toString b enc))"

definition toBinary :: "bool \<Rightarrow> jsval \<Rightarrow> error + jsstring" where
  "toBinary h key = encode h key Binary"

definition toHex :: "bool \<Rightarrow> jsval \<Rightarrow> error + jsstring" where
  "toHex h key = encode h key Hex"

section \<open>The host's \<open>Map\<close>\<close>

text \<open>
  Both classes keep their entries in a native \<open>Map\<close> keyed by strings. ECMAScript
  gives a \<open>Map\<close> a list of entries in insertion order: \<open>set\<close> on a key that is there
  replaces the value where the entry stands, \<open>set\<close> on a new key appends an entry,
  \<open>delete\<close> takes the entry out and says whether there was one. A lookup that finds
  nothing gives \<open>undefined\<close>, written \<open>None\<close> here.
\<close>

type_synonym ('k, 'v) Map = "('k \<times> 'v) list"

fun Map_get :: "('k, 'v) Map \<Rightarrow> 'k \<Rightarrow> 'v option" where
  "Map_get [] k = None"
| "Map_get ((k', v') # ps) k = (if k' = k then Some v' else Map_get ps k)"

fun Map_has :: "('k, 'v) Map \<Rightarrow> 'k \<Rightarrow> bool" where
  "Map_has [] k = False"
| "Map_has ((k', v') # ps) k = (if k' = k then True else Map_has ps k)"

fun Map_set :: "('k, 'v) Map \<Rightarrow> 'k \<Rightarrow> 'v \<Rightarrow> ('k, 'v) Map" where
  "Map_set [] k v = [(k, v)]"
| "Map_set ((k', v') # ps) k v = (if k' = k then (k', v) # ps else (k', v') # Map_set ps k v)"

fun Map_delete :: "('k, 'v) Map \<Rightarrow> 'k \<Rightarrow> bool \<times> ('k, 'v) Map" where
  "Map_delete [] k = (False, [])"
| "Map_delete ((k', v') # ps) k =
     (if k' = k then (True, ps)
      else (fst (Map_delete ps k), (k', v') # snd (Map_delete ps k)))"

definition Map_clear :: "('k, 'v) Map \<Rightarrow> ('k, 'v) Map" where
  "Map_clear m = []"

definition Map_size :: "('k, 'v) Map \<Rightarrow> nat" where
  "Map_size m = length m"

definition Map_values :: "('k, 'v) Map \<Rightarrow> 'v list" where
  "Map_values m = map snd m"

section \<open>\<open>BufferItem\<close> and \<open>BufferMap\<close>\<close>

text \<open>
  A \<open>BufferItem\<close> holds the caller's key object and the value. A \<open>BufferMap\<close> has
  one field, \<open>this.map\<close>, a native \<open>Map\<close> from the binary string of a key to its item;
  the model of the object is that field.

  A method that takes a key can throw, and the claims speak of the container after a
  throw, so such a method returns its outcome together with the container it leaves:
  \<open>Inl e\<close> for a throw of \<open>e\<close>, \<open>Inr r\<close> for a return of \<open>r\<close>. JavaScript evaluates
  the arguments of \<open>this.map.set(toBinary(key), ...)\<close> before the call, so a throw of
  \<open>toBinary\<close> comes before the native method runs. Where the source returns \<open>this\<close>
  the model returns \<open>()\<close> beside the new container.
\<close>

datatype BufferItem = BufferItem (item_key: jsval) (item_value: jsval)

type_synonym BufferMap = "(jsstring, BufferItem) Map"

definition BufferMap_size :: "BufferMap \<Rightarrow> nat" where
  "BufferMap_size this = Map_size this"

definition BufferMap_get :: "bool \<Rightarrow> BufferMap \<Rightarrow> jsval \<Rightarrow> (error + jsval) \<times> BufferMap" where
  "BufferMap_get h this key =
     (case toBinary h key of
        Inl e \<Rightarrow> (Inl e, this)
      | Inr s \<Rightarrow>
          (case Map_get this s of
             None \<Rightarrow> (Inr JUndefined, this)
           | Some item \<Rightarrow> (Inr (item_value item), this)))"

definition BufferMap_has :: "bool \<Rightarrow> BufferMap \<Rightarrow> jsval \<Rightarrow> (error + bool) \<times> BufferMap" where
  "BufferMap_has h this key =
     (case toBinary h key of
        Inl e \<Rightarrow> (Inl e, this)
      | Inr s \<Rightarrow> (Inr (Map_has this s), this))"

definition BufferMap_set ::
  "bool \<Rightarrow> BufferMap \<Rightarrow> jsval \<Rightarrow> jsval \<Rightarrow> (error + unit) \<times> BufferMap" where
  "BufferMap_set h this key val =
     (case toBinary h key of
        Inl e \<Rightarrow> (Inl e, this)
      | Inr s \<Rightarrow> (Inr (), Map_set this s (BufferItem key val)))"

definition BufferMap_delete :: "bool \<Rightarrow> BufferMap \<Rightarrow> jsval \<Rightarrow> (error + bool) \<times> BufferMap" where
  "BufferMap_delete h this key =
     (case toBinary h key of
        Inl e \<Rightarrow> (Inl e, this)
      | Inr s \<Rightarrow> (Inr (fst (Map_delete this s)), snd (Map_delete this s)))"

definition BufferMap_clear :: "BufferMap \<Rightarrow> BufferMap" where
  "BufferMap_clear this = Map_clear this"

text \<open>
  The constructor: \<open>iterable != null\<close> is false for \<open>null\<close> and \<open>undefined\<close>, both
  written \<open>None\<close>; otherwise the pairs are set in their order. A throw inside the loop
  leaves the caller without an object.
\<close>

fun BufferMap_init :: "bool \<Rightarrow> BufferMap \<Rightarrow> (jsval \<times> jsval) list \<Rightarrow> error + BufferMap" where
  "BufferMap_init h this [] = Inr this"
| "BufferMap_init h this ((key, val) # rest) =
     (case BufferMap_set h this key val of
        (Inl e, this') \<Rightarrow> Inl e
      | (Inr u, this') \<Rightarrow> BufferMap_init h this' rest)"

definition BufferMap_constructor ::
  "bool \<Rightarrow> (jsval \<times> jsval) list option \<Rightarrow> error + BufferMap" where
  "BufferMap_constructor h iterable =
     (case iterable of
        None \<Rightarrow> Inr []
      | Some pairs \<Rightarrow> BufferMap_init h [] pairs)"

text \<open>
  The generators, as the list of what they yield when they are run to the end on a
  container that does not change meanwhile.
\<close>

definition BufferMap_entries :: "BufferMap \<Rightarrow> (jsval \<times> jsval) list" where
  "BufferMap_entries this = map (\<lambda>item. (item_key item, item_value item)) (Map_values this)"

definition BufferMap_keys :: "BufferMap \<Rightarrow> jsval list" where
  "BufferMap_keys this = map item_key (Map_values this)"

definition BufferMap_values :: "BufferMap \<Rightarrow> jsval list" where
  "BufferMap_values this = map item_value (Map_values this)"

text \<open>
  \<open>forEach(func, self)\<close>. What a function object does when called is given by \<open>call\<close>:
  \<open>call f self a b c w\<close> is \<open>f.call(self, a, b, c)\<close> run in the state \<open>w\<close> of the rest
  of the program; it throws or returns, and leaves a new state. The callback gets the
  container to read; a callback that changes the container while it is being walked is
  outside the model, as it is outside the specification.
\<close>

fun BufferMap_forEach_loop ::
  "(jsval \<Rightarrow> jsval \<Rightarrow> jsval \<Rightarrow> BufferMap \<Rightarrow> 'w \<Rightarrow> (error + unit) \<times> 'w) \<Rightarrow>
   jsval \<Rightarrow> BufferMap \<Rightarrow> BufferItem list \<Rightarrow> 'w \<Rightarrow> (error + unit) \<times> 'w" where
  "BufferMap_forEach_loop func self this [] w = (Inr (), w)"
| "BufferMap_forEach_loop func self this (item # rest) w =
     (case func self (item_value item) (item_key item) this w of
        (Inl e, w') \<Rightarrow> (Inl e, w')
      | (Inr u, w') \<Rightarrow> BufferMap_forEach_loop func self this rest w')"

definition BufferMap_forEach ::
  "(nat \<Rightarrow> jsval \<Rightarrow> jsval \<Rightarrow> jsval \<Rightarrow> BufferMap \<Rightarrow> 'w \<Rightarrow> (error + unit) \<times> 'w) \<Rightarrow>
   BufferMap \<Rightarrow> jsval \<Rightarrow> jsval \<Rightarrow> 'w \<Rightarrow> (error + unit) \<times> BufferMap \<times> 'w" where
  "BufferMap_forEach call this func self w =
     (case func of
        JFunction f \<Rightarrow>
          (case BufferMap_forEach_loop (call f) self this (Map_values this) w of
             (r, w') \<Rightarrow> (r, this, w'))
      | _ \<Rightarrow> (Inl (TypeError (typeof func @ '' is not a function'')), this, w))"

text \<open>The loops that push onto \<open>out\<close>.\<close>

fun BufferMap_toKeys_loop :: "BufferItem list \<Rightarrow> jsval list \<Rightarrow> jsval list" where
  "BufferMap_toKeys_loop [] out = out"
| "BufferMap_toKeys_loop (item # rest) out = BufferMap_toKeys_loop rest (out @ [item_key item])"

definition BufferMap_toKeys :: "BufferMap \<Rightarrow> jsval list" where
  "BufferMap_toKeys this = BufferMap_toKeys_loop (Map_values this) []"

fun BufferMap_toValues_loop :: "BufferItem list \<Rightarrow> jsval list \<Rightarrow> jsval list" where
  "BufferMap_toValues_loop [] out = out"
| "BufferMap_toValues_loop (item # rest) out =
     BufferMap_toValues_loop rest (out @ [item_value item])"

definition BufferMap_toValues :: "BufferMap \<Rightarrow> jsval list" where
  "BufferMap_toValues this = BufferMap_toValues_loop (Map_values this) []"

definition BufferMap_toArray :: "BufferMap \<Rightarrow> jsval list" where
  "BufferMap_toArray this = BufferMap_toValues this"

section \<open>\<open>BufferSet\<close>\<close>

text \<open>A \<open>BufferSet\<close> is a native \<open>Map\<close> from the binary string of a key to the key object.\<close>

type_synonym BufferSet = "(jsstring, jsval) Map"

definition BufferSet_size :: "BufferSet \<Rightarrow> nat" where
  "BufferSet_size this = Map_size this"

definition BufferSet_has :: "bool \<Rightarrow> BufferSet \<Rightarrow> jsval \<Rightarrow> (error + bool) \<times> BufferSet" where
  "BufferSet_has h this key =
     (case toBinary h key of
        Inl e \<Rightarrow> (Inl e, this)
      | Inr s \<Rightarrow> (Inr (Map_has this s), this))"

definition BufferSet_add :: "bool \<Rightarrow> BufferSet \<Rightarrow> jsval \<Rightarrow> (error + unit) \<times> BufferSet" where
  "BufferSet_add h this key =
     (case toBinary h key of
        Inl e \<Rightarrow> (Inl e, this)
      | Inr s \<Rightarrow> (Inr (), Map_set this s key))"

definition BufferSet_delete :: "bool \<Rightarrow> BufferSet \<Rightarrow> jsval \<Rightarrow> (error + bool) \<times> BufferSet" where
  "BufferSet_delete h this key =
     (case toBinary h key of
        Inl e \<Rightarrow> (Inl e, this)
      | Inr s \<Rightarrow> (Inr (fst (Map_delete this s)), snd (Map_delete this s)))"

definition BufferSet_clear :: "BufferSet \<Rightarrow> BufferSet" where
  "BufferSet_clear this = Map_clear this"

fun BufferSet_init :: "bool \<Rightarrow> BufferSet \<Rightarrow> jsval list \<Rightarrow> error + BufferSet" where
  "BufferSet_init h this [] = Inr this"
| "BufferSet_init h this (key # rest) =
     (case BufferSet_add h this key of
        (Inl e, this') \<Rightarrow> Inl e
      | (Inr u, this') \<Rightarrow> BufferSet_init h this' rest)"

definition BufferSet_constructor :: "bool \<Rightarrow> jsval list option \<Rightarrow> error + BufferSet" where
  "BufferSet_constructor h iterable =
     (case iterable of
        None \<Rightarrow> Inr []
      | Some keys \<Rightarrow> BufferSet_init h [] keys)"

definition BufferSet_entries :: "BufferSet \<Rightarrow> (jsval \<times> jsval) list" where
  "BufferSet_entries this = map (\<lambda>key. (key, key)) (Map_values this)"

definition BufferSet_keys :: "BufferSet \<Rightarrow> jsval list" where
  "BufferSet_keys this = Map_values this"

definition BufferSet_values :: "BufferSet \<Rightarrow> jsval list" where
  "BufferSet_values this = Map_values this"

fun BufferSet_forEach_loop ::
  "(jsval \<Rightarrow> jsval \<Rightarrow> jsval \<Rightarrow> BufferSet \<Rightarrow> 'w \<Rightarrow> (error + unit) \<times> 'w) \<Rightarrow>
   jsval \<Rightarrow> BufferSet \<Rightarrow> jsval list \<Rightarrow> 'w \<Rightarrow> (error + unit) \<times> 'w" where
  "BufferSet_forEach_loop func self this [] w = (Inr (), w)"
| "BufferSet_forEach_loop func self this (key # rest) w =
     (case func self key key this w of
        (Inl e, w') \<Rightarrow> (Inl e, w')
      | (Inr u, w') \<Rightarrow> BufferSet_forEach_loop func self this rest w')"

definition BufferSet_forEach ::
  "(nat \<Rightarrow> jsval \<Rightarrow> jsval \<Rightarrow> jsval \<Rightarrow> BufferSet \<Rightarrow> 'w \<Rightarrow> (error + unit) \<times> 'w) \<Rightarrow>
   BufferSet \<Rightarrow> jsval \<Rightarrow> jsval \<Rightarrow> 'w \<Rightarrow> (error + unit) \<times> BufferSet \<times> 'w" where
  "BufferSet_forEach call this func self w =
     (case func of
        JFunction f \<Rightarrow>
          (case BufferSet_forEach_loop (call f) self this (Map_values this) w of
             (r, w') \<Rightarrow> (r, this, w'))
      | _ \<Rightarrow> (Inl (TypeError (typeof func @ '' is not a function'')), this, w))"

fun BufferSet_toKeys_loop :: "jsval list \<Rightarrow> jsval list \<Rightarrow> jsval list" where
  "BufferSet_toKeys_loop [] out = out"
| "BufferSet_toKeys_loop (key # rest) out = BufferSet_toKeys_loop rest (out @ [key])"

definition BufferSet_toKeys :: "BufferSet \<Rightarrow> jsval list" where
  "BufferSet_toKeys this = BufferSet_toKeys_loop (Map_values this) []"

definition BufferSet_toValues :: "BufferSet \<Rightarrow> jsval list" where
  "BufferSet_toValues this = BufferSet_toKeys this"

definition BufferSet_toArray :: "BufferSet \<Rightarrow> jsval list" where
  "BufferSet_toArray this = BufferSet_toKeys this"

section \<open>The notions of the specification\<close>

text \<open>
  A byte-bearing input is a \<open>Buffer\<close>, another view on an array buffer, or an
  \<open>ArrayBuffer\<close> or \<open>SharedArrayBuffer\<close> itself. Its byte sequence is what the window
  shows, or the whole memory.
\<close>

fun byte_bearing :: "jsval \<Rightarrow> bool" where
  "byte_bearing (JBuffer r v) = True"
| "byte_bearing (JView r v) = True"
| "byte_bearing (JArrayBuffer b) = True"
| "byte_bearing key = False"

fun bytes_of :: "jsval \<Rightarrow> byte list" where
  "bytes_of (JBuffer r v) = take (byteLength v) (drop (byteOffset v) (contents (buffer v)))"
| "bytes_of (JView r v) = take (byteLength v) (drop (byteOffset v) (contents (buffer v)))"
| "bytes_of (JArrayBuffer b) = contents b"
| "bytes_of key = []"

text \<open>
  What the host guarantees of every value it hands to the library: the window of a view
  lies inside its memory, and shared memory exists only on a host that has
  \<open>SharedArrayBuffer\<close>.
\<close>

fun host_value :: "bool \<Rightarrow> jsval \<Rightarrow> bool" where
  "host_value h (JBuffer r v) =
     (byteOffset v + byteLength v \<le> length (contents (buffer v)) \<and> (h \<or> \<not> shared (buffer v)))"
| "host_value h (JView r v) =
     (byteOffset v + byteLength v \<le> length (contents (buffer v)) \<and> (h \<or> \<not> shared (buffer v)))"
| "host_value h (JArrayBuffer b) = (h \<or> \<not> shared b)"
| "host_value h key = True"

definition usable_key :: "bool \<Rightarrow> jsval \<Rightarrow> bool" where
  "usable_key h key = (byte_bearing key \<and> host_value h key)"

text \<open>
  The states a container can be in: the native \<open>Map\<close> has every string once, and every
  entry stands under the binary string of the key object it keeps. The empty container
  is such a state and every method keeps it so, as proved below.
\<close>

definition BufferMap_state :: "bool \<Rightarrow> BufferMap \<Rightarrow> bool" where
  "BufferMap_state h this =
     (distinct (map fst this) \<and>
      list_all (\<lambda>p. toBinary h (item_key (snd p)) = Inr (fst p)) this)"

definition BufferSet_state :: "bool \<Rightarrow> BufferSet \<Rightarrow> bool" where
  "BufferSet_state h this =
     (distinct (map fst this) \<and>
      list_all (\<lambda>p. toBinary h (snd p) = Inr (fst p)) this)"

text \<open>
  Runs of mutating calls, for the claim about \<open>size\<close>, and beside them what the
  specification counts: the byte contents inserted and not yet deleted.
\<close>

datatype map_op = MapSet jsval jsval | MapDelete jsval | MapClear

fun BufferMap_step :: "bool \<Rightarrow> BufferMap \<Rightarrow> map_op \<Rightarrow> BufferMap" where
  "BufferMap_step h this (MapSet key val) = snd (BufferMap_set h this key val)"
| "BufferMap_step h this (MapDelete key) = snd (BufferMap_delete h this key)"
| "BufferMap_step h this MapClear = BufferMap_clear this"

fun BufferMap_run :: "bool \<Rightarrow> BufferMap \<Rightarrow> map_op list \<Rightarrow> BufferMap" where
  "BufferMap_run h this [] = this"
| "BufferMap_run h this (op # ops) = BufferMap_run h (BufferMap_step h this op) ops"

fun map_op_keys :: "map_op \<Rightarrow> jsval list" where
  "map_op_keys (MapSet key val) = [key]"
| "map_op_keys (MapDelete key) = [key]"
| "map_op_keys MapClear = []"

fun map_present :: "byte list set \<Rightarrow> map_op list \<Rightarrow> byte list set" where
  "map_present S [] = S"
| "map_present S (MapSet key val # ops) = map_present (insert (bytes_of key) S) ops"
| "map_present S (MapDelete key # ops) = map_present (S - {bytes_of key}) ops"
| "map_present S (MapClear # ops) = map_present {} ops"

datatype set_op = SetAdd jsval | SetDelete jsval | SetClear

fun BufferSet_step :: "bool \<Rightarrow> BufferSet \<Rightarrow> set_op \<Rightarrow> BufferSet" where
  "BufferSet_step h this (SetAdd key) = snd (BufferSet_add h this key)"
| "BufferSet_step h this (SetDelete key) = snd (BufferSet_delete h this key)"
| "BufferSet_step h this SetClear = BufferSet_clear this"

fun BufferSet_run :: "bool \<Rightarrow> BufferSet \<Rightarrow> set_op list \<Rightarrow> BufferSet" where
  "BufferSet_run h this [] = this"
| "BufferSet_run h this (op # ops) = BufferSet_run h (BufferSet_step h this op) ops"

fun set_op_keys :: "set_op \<Rightarrow> jsval list" where
  "set_op_keys (SetAdd key) = [key]"
| "set_op_keys (SetDelete key) = [key]"
| "set_op_keys SetClear = []"

fun set_present :: "byte list set \<Rightarrow> set_op list \<Rightarrow> byte list set" where
  "set_present S [] = S"
| "set_present S (SetAdd key # ops) = set_present (insert (bytes_of key) S) ops"
| "set_present S (SetDelete key # ops) = set_present (S - {bytes_of key}) ops"
| "set_present S (SetClear # ops) = set_present {} ops"

text \<open>
  A callback that only writes down how it was called: its \<open>this\<close>, its three arguments.
  The state of the rest of the program is the list of calls so far.
\<close>

definition record_call ::
  "jsval \<Rightarrow> jsval \<Rightarrow> jsval \<Rightarrow> 'c \<Rightarrow> (jsval \<times> jsval \<times> jsval \<times> 'c) list \<Rightarrow>
   (error + unit) \<times> (jsval \<times> jsval \<times> jsval \<times> 'c) list" where
  "record_call self a b c w = (Inr (), w @ [(self, a, b, c)])"

text \<open>
  Values for the worked cases. \<open>seq r bs\<close> is a \<open>Buffer\<close> of its own, allocation
  \<open>r\<close>, holding \<open>bs\<close>. \<open>window r before bs after\<close> is a typed array on shared memory
  that shows \<open>bs\<close> between other bytes. \<open>whole r bs\<close> is an \<open>ArrayBuffer\<close>.
\<close>

definition seq :: "nat \<Rightarrow> byte list \<Rightarrow> jsval" where
  "seq r bs = JBuffer r \<lparr>buffer = Backing r False bs, byteOffset = 0, byteLength = length bs\<rparr>"

definition window :: "nat \<Rightarrow> byte list \<Rightarrow> byte list \<Rightarrow> byte list \<Rightarrow> jsval" where
  "window r before bs after =
     JView r \<lparr>buffer = Backing r True (before @ bs @ after),
              byteOffset = length before, byteLength = length bs\<rparr>"

definition whole :: "nat \<Rightarrow> byte list \<Rightarrow> jsval" where
  "whole r bs = JArrayBuffer (Backing r False bs)"

section \<open>The normalizer\<close>

text \<open>
  \<open>toBuffer\<close> and \<open>encode\<close> are written by cases on the key. The cases are the tests
  of the source, in its order.
\<close>

lemma encode_isBuffer:
  "Buffer_isBuffer key \<Longrightarrow>
   \<exists>r v. key = JBuffer r v \<and> encode h key enc = Inr (Buffer_toString v enc)"
  by (cases key) simp_all

lemma encode_not_isBuffer:
  "\<not> Buffer_isBuffer key \<Longrightarrow>
   encode h key enc =
     (case toBuffer h key of Inl e \<Rightarrow> Inl e | Inr b \<Rightarrow> Inr (Buffer_toString b enc))"
  by (cases key) simp_all

lemma toBuffer_isView:
  "ArrayBuffer_isView key \<Longrightarrow>
   \<exists>r v. (key = JBuffer r v \<or> key = JView r v) \<and>
     toBuffer h key = Buffer_from (buffer v) (byteOffset v) (byteLength v)"
  by (cases key) simp_all

lemma toBuffer_isArrayBuffer:
  "\<not> ArrayBuffer_isView key \<Longrightarrow> isArrayBuffer h key \<Longrightarrow>
   \<exists>b. key = JArrayBuffer b \<and> toBuffer h key = Buffer_from b 0 (length (contents b))"
  by (cases key) (simp_all add: isArrayBuffer_def split: if_splits)

lemma toBuffer_other:
  "\<not> ArrayBuffer_isView key \<Longrightarrow> \<not> isArrayBuffer h key \<Longrightarrow>
   toBuffer h key = Inl (TypeError ''Non-buffer passed to buffer map/set.'')"
  by (cases key) (simp_all add: isArrayBuffer_def split: if_splits)

lemma latin1_inj: "latin1 a = latin1 b \<longleftrightarrow> a = b"
proof -
  have "inj (ucast :: byte \<Rightarrow> 16 word)"
    by (rule inj_on_inverseI [where g = ucast]) (simp add: ucast_up_ucast_id is_up)
  then show ?thesis
    unfolding latin1_def by simp
qed

lemma latin1_length: "length (latin1 bs) = length bs"
  by (simp add: latin1_def)

lemma latin1_nth: "i < length bs \<Longrightarrow> unat (latin1 bs ! i) = unat (bs ! i)"
proof -
  have "uint (ucast b :: 16 word) = uint b" for b :: byte
    by (rule uint_up_ucast) (simp add: is_up)
  then have "unat (ucast b :: 16 word) = unat b" for b :: byte
    by (simp only: unat_eq_nat_uint)
  then show "i < length bs \<Longrightarrow> unat (latin1 bs ! i) = unat (bs ! i)"
    by (simp add: latin1_def)
qed

lemma latin1_back: "map ucast (latin1 bs) = bs"
  by (simp add: latin1_def ucast_up_ucast_id is_up map_idI)

lemma toBinary_usable: "usable_key h key \<Longrightarrow> toBinary h key = Inr (latin1 (bytes_of key))"
  by (cases key)
     (auto simp: usable_key_def toBinary_def Buffer_from_def slice_bytes_def isArrayBuffer_def)

lemma toBinary_Inr: "toBinary h key = Inr s \<Longrightarrow> s = latin1 (bytes_of key)"
  by (cases key)
     (auto simp: toBinary_def Buffer_from_def slice_bytes_def isArrayBuffer_def
           split: if_splits)

lemma toBinary_not_byte_bearing:
  "\<not> byte_bearing key \<Longrightarrow> toBinary h key = Inl (TypeError ''Non-buffer passed to buffer map/set.'')"
  by (cases key) (auto simp: toBinary_def)

section \<open>The native \<open>Map\<close>\<close>

lemma Map_get_map_of: "Map_get m k = map_of m k"
  by (induction m) (auto split: if_splits)

lemma Map_has_iff: "Map_has m k \<longleftrightarrow> k \<in> set (map fst m)"
  by (induction m) (auto split: if_splits)

lemma Map_has_get: "Map_has m k \<longleftrightarrow> Map_get m k \<noteq> None"
  by (induction m) (auto split: if_splits)

lemma Map_get_set: "Map_get (Map_set m k v) k' = (if k' = k then Some v else Map_get m k')"
  by (induction m) (auto split: if_splits)

lemma Map_has_set: "Map_has (Map_set m k v) k' \<longleftrightarrow> k' = k \<or> Map_has m k'"
  by (induction m) (auto split: if_splits)

lemma Map_set_keys:
  "map fst (Map_set m k v) = (if Map_has m k then map fst m else map fst m @ [k])"
  by (induction m) (auto split: if_splits)

lemma Map_set_length:
  "length (Map_set m k v) = (if Map_has m k then length m else Suc (length m))"
  by (induction m) (auto split: if_splits)

lemma Map_set_absent: "\<not> Map_has m k \<Longrightarrow> Map_set m k v = m @ [(k, v)]"
  by (induction m) (auto split: if_splits)

lemma Map_set_present:
  "Map_has m k \<Longrightarrow>
   \<exists>i < length m. fst (m ! i) = k \<and> Map_get m k = Some (snd (m ! i)) \<and>
     Map_set m k v = m[i := (k, v)]"
proof (induction m)
  case Nil
  then show ?case by simp
next
  case (Cons p ps)
  show ?case
  proof (cases "fst p = k")
    case True
    then have "fst ((p # ps) ! 0) = k \<and> Map_get (p # ps) k = Some (snd ((p # ps) ! 0)) \<and>
        Map_set (p # ps) k v = (p # ps)[0 := (k, v)]"
      by (cases p) simp
    then show ?thesis by blast
  next
    case False
    with Cons.prems have "Map_has ps k" by (cases p) simp
    then obtain i where i: "i < length ps" "fst (ps ! i) = k" "Map_get ps k = Some (snd (ps ! i))"
      "Map_set ps k v = ps[i := (k, v)]"
      using Cons.IH by blast
    with False have
      "Suc i < length (p # ps) \<and> fst ((p # ps) ! Suc i) = k \<and>
       Map_get (p # ps) k = Some (snd ((p # ps) ! Suc i)) \<and>
       Map_set (p # ps) k v = (p # ps)[Suc i := (k, v)]"
      by (cases p) simp
    then show ?thesis by blast
  qed
qed

lemma Map_set_distinct: "distinct (map fst m) \<Longrightarrow> distinct (map fst (Map_set m k v))"
  by (simp add: Map_set_keys Map_has_iff)

lemma Map_set_set: "set (Map_set m k v) \<subseteq> insert (k, v) (set m)"
  by (induction m) (auto split: if_splits)

lemma Map_delete_fst: "fst (Map_delete m k) = Map_has m k"
  by (induction m) (auto split: if_splits)

lemma Map_delete_absent: "\<not> Map_has m k \<Longrightarrow> snd (Map_delete m k) = m"
  by (induction m) (auto split: if_splits)

lemma Map_has_nonempty: "Map_has m k \<Longrightarrow> 0 < length m"
  by (cases m) auto

lemma Map_delete_length:
  "length (snd (Map_delete m k)) = (if Map_has m k then length m - 1 else length m)"
  by (induction m) (auto split: if_splits dest: Map_has_nonempty)

lemma Map_delete_filter:
  "distinct (map fst m) \<Longrightarrow> snd (Map_delete m k) = filter (\<lambda>p. fst p \<noteq> k) m"
proof (induction m)
  case Nil
  then show ?case by simp
next
  case (Cons p ps)
  show ?case
  proof (cases "fst p = k")
    case True
    from Cons.prems have "fst p \<notin> fst ` set ps" by simp
    with True have "\<forall>q \<in> set ps. fst q \<noteq> k" by (metis imageI)
    then have "filter (\<lambda>q. fst q \<noteq> k) ps = ps" by (simp add: filter_id_conv)
    with True show ?thesis by (cases p) simp
  next
    case False
    with Cons show ?thesis by (cases p) simp
  qed
qed

lemma Map_delete_has:
  "distinct (map fst m) \<Longrightarrow> Map_has (snd (Map_delete m k)) k' \<longleftrightarrow> k' \<noteq> k \<and> Map_has m k'"
  by (auto simp: Map_delete_filter Map_has_iff)

lemma Map_get_filter:
  "Map_get (filter (\<lambda>p. fst p \<noteq> k) m) k' = (if k' = k then None else Map_get m k')"
  by (induction m) auto

lemma Map_delete_get:
  "distinct (map fst m) \<Longrightarrow>
   Map_get (snd (Map_delete m k)) k' = (if k' = k then None else Map_get m k')"
  by (simp add: Map_delete_filter Map_get_filter)

lemma Map_delete_distinct: "distinct (map fst m) \<Longrightarrow> distinct (map fst (snd (Map_delete m k)))"
  by (simp add: Map_delete_filter distinct_map_filter)

lemma Map_delete_set: "set (snd (Map_delete m k)) \<subseteq> set m"
  by (induction m) (auto split: if_splits)

lemma Map_size_card: "distinct (map fst m) \<Longrightarrow> Map_size m = card (set (map fst m))"
  using distinct_card [of "map fst m"] by (simp add: Map_size_def)

section \<open>Lookup by content\<close>

lemmas method_defs =
  BufferMap_get_def BufferMap_has_def BufferMap_set_def BufferMap_delete_def
  BufferSet_has_def BufferSet_add_def BufferSet_delete_def

lemmas example_defs = seq_def window_def whole_def

lemmas run_defs =
  toBinary_def Buffer_from_def slice_bytes_def isArrayBuffer_def latin1_def

text \<open>
  C1. Take two byte-bearing inputs \<open>a\<close> and \<open>b\<close> with the same byte sequence, of any of
  the kinds (a Buffer, another view, an ArrayBuffer or SharedArrayBuffer), at any offset
  and in any allocation. After \<open>map.set(a, v)\<close>, which returns, \<open>map.get(b)\<close> returns
  \<open>v\<close> and \<open>map.has(b)\<close> returns true.
\<close>

theorem content_equality:
  assumes "byte_bearing a" and "host_value h a"
    and "byte_bearing b" and "host_value h b"
    and "bytes_of a = bytes_of b"
    and "BufferMap_set h this a v = (r, this')"
  shows "r = Inr () \<and>
         BufferMap_get h this' b = (Inr v, this') \<and>
         BufferMap_has h this' b = (Inr True, this')"
proof -
  have a: "toBinary h a = Inr (latin1 (bytes_of a))"
    using assms(1,2) by (simp add: toBinary_usable usable_key_def)
  have b: "toBinary h b = Inr (latin1 (bytes_of a))"
    using assms(3,4,5) by (simp add: toBinary_usable usable_key_def)
  from a assms(6) have r: "r = Inr ()"
    and this': "this' = Map_set this (latin1 (bytes_of a)) (BufferItem a v)"
    by (simp_all add: BufferMap_set_def)
  from b this' have "BufferMap_get h this' b = (Inr v, this')"
    by (simp add: BufferMap_get_def Map_get_set)
  moreover from b this' have "BufferMap_has h this' b = (Inr True, this')"
    by (simp add: BufferMap_has_def Map_has_set)
  ultimately show ?thesis using r by simp
qed

theorem content_equality_witness:
  "byte_bearing (seq 1 [0, 1, 2]) \<and> host_value True (seq 1 [0, 1, 2]) \<and>
   byte_bearing (window 2 [9] [0, 1, 2] [7]) \<and> host_value True (window 2 [9] [0, 1, 2] [7]) \<and>
   bytes_of (seq 1 [0, 1, 2]) = bytes_of (window 2 [9] [0, 1, 2] [7]) \<and>
   BufferMap_set True [] (seq 1 [0, 1, 2]) (JNumber 42) =
     (Inr (), [([0, 1, 2], BufferItem (seq 1 [0, 1, 2]) (JNumber 42))]) \<and>
   BufferMap_get True [([0, 1, 2], BufferItem (seq 1 [0, 1, 2]) (JNumber 42))]
       (window 2 [9] [0, 1, 2] [7]) =
     (Inr (JNumber 42), [([0, 1, 2], BufferItem (seq 1 [0, 1, 2]) (JNumber 42))]) \<and>
   BufferMap_has True [([0, 1, 2], BufferItem (seq 1 [0, 1, 2]) (JNumber 42))]
       (window 2 [9] [0, 1, 2] [7]) =
     (Inr True, [([0, 1, 2], BufferItem (seq 1 [0, 1, 2]) (JNumber 42))])"
proof -
  have s: "BufferMap_set True [] (seq 1 [0, 1, 2]) (JNumber 42) =
     (Inr (), [([0, 1, 2], BufferItem (seq 1 [0, 1, 2]) (JNumber 42))])"
    by (simp add: BufferMap_set_def run_defs example_defs)
  have k: "byte_bearing (seq 1 [0, 1, 2])" "host_value True (seq 1 [0, 1, 2])"
    "byte_bearing (window 2 [9] [0, 1, 2] [7])" "host_value True (window 2 [9] [0, 1, 2] [7])"
    "bytes_of (seq 1 [0, 1, 2]) = bytes_of (window 2 [9] [0, 1, 2] [7])"
    by (simp_all add: example_defs)
  from content_equality [OF k s] k s show ?thesis by simp
qed

section \<open>Keys that are not byte-bearing\<close>

text \<open>
  C2. In every container state, for every key that is not byte-bearing (not a Buffer, not
  another view, not an ArrayBuffer or SharedArrayBuffer), each of \<open>get\<close>, \<open>has\<close>,
  \<open>set\<close>, \<open>delete\<close> of a BufferMap and \<open>has\<close>, \<open>add\<close>, \<open>delete\<close> of a BufferSet throws
  the TypeError of an invalid key, and leaves the container exactly as it was.
\<close>

theorem invalid_key_atomic:
  assumes "\<not> byte_bearing key"
  shows "BufferMap_get h m key = (Inl (TypeError ''Non-buffer passed to buffer map/set.''), m) \<and>
         BufferMap_has h m key = (Inl (TypeError ''Non-buffer passed to buffer map/set.''), m) \<and>
         BufferMap_set h m key v = (Inl (TypeError ''Non-buffer passed to buffer map/set.''), m) \<and>
         BufferMap_delete h m key = (Inl (TypeError ''Non-buffer passed to buffer map/set.''), m) \<and>
         BufferSet_has h s key = (Inl (TypeError ''Non-buffer passed to buffer map/set.''), s) \<and>
         BufferSet_add h s key = (Inl (TypeError ''Non-buffer passed to buffer map/set.''), s) \<and>
         BufferSet_delete h s key = (Inl (TypeError ''Non-buffer passed to buffer map/set.''), s)"
  using toBinary_not_byte_bearing [OF assms, of h] by (simp add: method_defs)

theorem invalid_key_atomic_witness:
  "\<not> byte_bearing (JString [104, 105]) \<and>
   BufferMap_get True [([9], BufferItem (seq 1 [9]) JNull)] (JString [104, 105]) =
     (Inl (TypeError ''Non-buffer passed to buffer map/set.''),
      [([9], BufferItem (seq 1 [9]) JNull)]) \<and>
   BufferMap_has True [([9], BufferItem (seq 1 [9]) JNull)] (JString [104, 105]) =
     (Inl (TypeError ''Non-buffer passed to buffer map/set.''),
      [([9], BufferItem (seq 1 [9]) JNull)]) \<and>
   BufferMap_set True [([9], BufferItem (seq 1 [9]) JNull)] (JString [104, 105]) (JNumber 1) =
     (Inl (TypeError ''Non-buffer passed to buffer map/set.''),
      [([9], BufferItem (seq 1 [9]) JNull)]) \<and>
   BufferMap_delete True [([9], BufferItem (seq 1 [9]) JNull)] (JString [104, 105]) =
     (Inl (TypeError ''Non-buffer passed to buffer map/set.''),
      [([9], BufferItem (seq 1 [9]) JNull)]) \<and>
   BufferSet_has True [([9], seq 1 [9])] (JString [104, 105]) =
     (Inl (TypeError ''Non-buffer passed to buffer map/set.''), [([9], seq 1 [9])]) \<and>
   BufferSet_add True [([9], seq 1 [9])] (JString [104, 105]) =
     (Inl (TypeError ''Non-buffer passed to buffer map/set.''), [([9], seq 1 [9])]) \<and>
   BufferSet_delete True [([9], seq 1 [9])] (JString [104, 105]) =
     (Inl (TypeError ''Non-buffer passed to buffer map/set.''), [([9], seq 1 [9])])"
proof -
  have k: "\<not> byte_bearing (JString [104, 105])" by simp
  from invalid_key_atomic [OF k, of True "[([9], BufferItem (seq 1 [9]) JNull)]" "JNumber 1"
      "[([9], seq 1 [9])]"] k
  show ?thesis by simp
qed

section \<open>The canonical key\<close>

text \<open>
  C3. \<open>toBinary\<close> turns every byte into one code unit of the same number, and the bytes
  can be read back from the string. So the canonical keys of two byte-bearing inputs are
  equal exactly when their byte sequences are the same in length and content. The empty
  sequence has a canonical key, the empty string, which no other sequence has. Inputs
  with different byte sequences are independent entries: setting one changes neither
  what \<open>get\<close> nor what \<open>has\<close> says of the other.
\<close>

theorem canonical_key_bijective:
  assumes "byte_bearing a" and "host_value h a"
    and "byte_bearing b" and "host_value h b"
  shows "(\<exists>s. toBinary h a = Inr s \<and> length s = length (bytes_of a) \<and>
              (\<forall>i < length s. unat (s ! i) = unat (bytes_of a ! i)) \<and>
              map ucast s = bytes_of a) \<and>
         (toBinary h a = toBinary h b \<longleftrightarrow> bytes_of a = bytes_of b) \<and>
         (toBinary h a = Inr [] \<longleftrightarrow> bytes_of a = []) \<and>
         (bytes_of a \<noteq> bytes_of b \<longrightarrow>
            fst (BufferMap_get h (snd (BufferMap_set h m a v)) b) = fst (BufferMap_get h m b) \<and>
            fst (BufferMap_has h (snd (BufferMap_set h m a v)) b) = fst (BufferMap_has h m b))"
proof -
  have a: "toBinary h a = Inr (latin1 (bytes_of a))"
    using assms(1,2) by (simp add: toBinary_usable usable_key_def)
  have b: "toBinary h b = Inr (latin1 (bytes_of b))"
    using assms(3,4) by (simp add: toBinary_usable usable_key_def)
  have one: "\<exists>s. toBinary h a = Inr s \<and> length s = length (bytes_of a) \<and>
              (\<forall>i < length s. unat (s ! i) = unat (bytes_of a ! i)) \<and>
              map ucast s = bytes_of a"
    using a by (simp add: latin1_length latin1_nth latin1_back)
  have two: "toBinary h a = toBinary h b \<longleftrightarrow> bytes_of a = bytes_of b"
    using a b by (simp add: latin1_inj)
  have three: "toBinary h a = Inr [] \<longleftrightarrow> bytes_of a = []"
    using a by (simp add: latin1_def)
  have four: "fst (BufferMap_get h (snd (BufferMap_set h m a v)) b) = fst (BufferMap_get h m b) \<and>
      fst (BufferMap_has h (snd (BufferMap_set h m a v)) b) = fst (BufferMap_has h m b)"
    if "bytes_of a \<noteq> bytes_of b"
  proof -
    from that have "latin1 (bytes_of b) \<noteq> latin1 (bytes_of a)"
      by (simp add: latin1_inj)
    then show ?thesis
      using a b by (simp add: BufferMap_get_def BufferMap_has_def BufferMap_set_def
          Map_get_set Map_has_set split: option.splits)
  qed
  from one two three four show ?thesis by blast
qed

theorem canonical_key_bijective_witness:
  "byte_bearing (seq 1 []) \<and> host_value False (seq 1 []) \<and>
   byte_bearing (whole 2 [0]) \<and> host_value False (whole 2 [0]) \<and>
   toBinary False (seq 1 []) = Inr [] \<and>
   toBinary False (whole 2 [0]) = Inr [0] \<and>
   toBinary False (seq 1 []) \<noteq> toBinary False (whole 2 [0]) \<and>
   bytes_of (seq 1 []) \<noteq> bytes_of (whole 2 [0]) \<and>
   fst (BufferMap_get False (snd (BufferMap_set False [] (seq 1 []) (JNumber 7))) (whole 2 [0])) =
     Inr JUndefined \<and>
   fst (BufferMap_has False (snd (BufferMap_set False [] (seq 1 []) (JNumber 7))) (whole 2 [0])) =
     Inr False"
proof -
  have k: "byte_bearing (seq 1 [])" "host_value False (seq 1 [])"
    "byte_bearing (whole 2 [0])" "host_value False (whole 2 [0])"
    by (simp_all add: example_defs)
  have e: "toBinary False (whole 2 [0]) = Inr [0]" "bytes_of (seq 1 []) \<noteq> bytes_of (whole 2 [0])"
    "fst (BufferMap_get False [] (whole 2 [0])) = Inr JUndefined"
    "fst (BufferMap_has False [] (whole 2 [0])) = Inr False"
    "bytes_of (seq 1 []) = []"
    by (simp_all add: example_defs run_defs BufferMap_get_def BufferMap_has_def)
  from canonical_key_bijective [OF k, of "[]" "JNumber 7"] k e show ?thesis by simp
qed

section \<open>A stored \<open>undefined\<close>\<close>

text \<open>
  C10. \<open>get\<close> answers \<open>undefined\<close> for a key that is absent, and a value may itself
  be \<open>undefined\<close>. For every byte-bearing key \<open>k\<close>, after \<open>set(k, undefined)\<close> the call
  \<open>get(k)\<close> returns \<open>undefined\<close>, as it does in any container where \<open>has(k)\<close> is
  false, while here \<open>has(k)\<close> returns true. Only \<open>has\<close> tells the two apart.
\<close>

theorem get_undefined_ambiguous:
  assumes "byte_bearing k" and "host_value h k"
  shows "fst (BufferMap_get h (snd (BufferMap_set h m k JUndefined)) k) = Inr JUndefined \<and>
         fst (BufferMap_has h (snd (BufferMap_set h m k JUndefined)) k) = Inr True \<and>
         (fst (BufferMap_has h m' k) = Inr False \<longrightarrow> fst (BufferMap_get h m' k) = Inr JUndefined)"
proof -
  have k: "toBinary h k = Inr (latin1 (bytes_of k))"
    using assms by (simp add: toBinary_usable usable_key_def)
  then show ?thesis
    by (simp add: BufferMap_get_def BufferMap_has_def BufferMap_set_def Map_get_set Map_has_set
        Map_has_get)
qed

theorem get_undefined_ambiguous_witness:
  "byte_bearing (seq 1 [0, 1, 2]) \<and> host_value True (seq 1 [0, 1, 2]) \<and>
   fst (BufferMap_get True (snd (BufferMap_set True [] (seq 1 [0, 1, 2]) JUndefined))
     (seq 1 [0, 1, 2])) = Inr JUndefined \<and>
   fst (BufferMap_has True (snd (BufferMap_set True [] (seq 1 [0, 1, 2]) JUndefined))
     (seq 1 [0, 1, 2])) = Inr True \<and>
   fst (BufferMap_has True [] (seq 1 [0, 1, 2])) = Inr False \<and>
   fst (BufferMap_get True [] (seq 1 [0, 1, 2])) = Inr JUndefined"
proof -
  have k: "byte_bearing (seq 1 [0, 1, 2])" "host_value True (seq 1 [0, 1, 2])"
    by (simp_all add: example_defs)
  have e: "fst (BufferMap_has True [] (seq 1 [0, 1, 2])) = Inr False"
    by (simp add: example_defs run_defs BufferMap_has_def)
  from get_undefined_ambiguous [OF k, of "[]" "[]"] k e show ?thesis by simp
qed

section \<open>Container states\<close>

lemma BufferMap_state_empty: "BufferMap_state h []"
  by (simp add: BufferMap_state_def)

lemma BufferMap_state_entry:
  "BufferMap_state h m \<Longrightarrow> (s, item) \<in> set m \<Longrightarrow> s = latin1 (bytes_of (item_key item))"
  by (force simp: BufferMap_state_def list_all_iff dest: toBinary_Inr)

lemma BufferMap_state_set:
  assumes "BufferMap_state h m" and "toBinary h k = Inr s"
  shows "BufferMap_state h (Map_set m s (BufferItem k v))"
proof -
  have "list_all (\<lambda>p. toBinary h (item_key (snd p)) = Inr (fst p)) (Map_set m s (BufferItem k v))"
    using assms Map_set_set [of m s "BufferItem k v"]
    by (auto simp: BufferMap_state_def list_all_iff)
  with assms(1) show ?thesis
    by (simp add: BufferMap_state_def Map_set_distinct)
qed

lemma BufferMap_state_delete:
  assumes "BufferMap_state h m"
  shows "BufferMap_state h (snd (Map_delete m s))"
proof -
  have "list_all (\<lambda>p. toBinary h (item_key (snd p)) = Inr (fst p)) (snd (Map_delete m s))"
    using assms Map_delete_set [of m s] by (auto simp: BufferMap_state_def list_all_iff)
  with assms show ?thesis
    by (simp add: BufferMap_state_def Map_delete_distinct)
qed

lemma BufferSet_state_empty: "BufferSet_state h []"
  by (simp add: BufferSet_state_def)

lemma BufferSet_state_entry:
  "BufferSet_state h m \<Longrightarrow> (s, key) \<in> set m \<Longrightarrow> s = latin1 (bytes_of key)"
  by (force simp: BufferSet_state_def list_all_iff dest: toBinary_Inr)

lemma BufferSet_state_add:
  assumes "BufferSet_state h m" and "toBinary h k = Inr s"
  shows "BufferSet_state h (Map_set m s k)"
proof -
  have "list_all (\<lambda>p. toBinary h (snd p) = Inr (fst p)) (Map_set m s k)"
    using assms Map_set_set [of m s k] by (auto simp: BufferSet_state_def list_all_iff)
  with assms(1) show ?thesis
    by (simp add: BufferSet_state_def Map_set_distinct)
qed

lemma BufferSet_state_delete:
  assumes "BufferSet_state h m"
  shows "BufferSet_state h (snd (Map_delete m s))"
proof -
  have "list_all (\<lambda>p. toBinary h (snd p) = Inr (fst p)) (snd (Map_delete m s))"
    using assms Map_delete_set [of m s] by (auto simp: BufferSet_state_def list_all_iff)
  with assms show ?thesis
    by (simp add: BufferSet_state_def Map_delete_distinct)
qed

lemma BufferMap_state_methods:
  assumes "BufferMap_state h m"
  shows "BufferMap_state h (snd (BufferMap_get h m k))"
    and "BufferMap_state h (snd (BufferMap_has h m k))"
    and "BufferMap_state h (snd (BufferMap_set h m k v))"
    and "BufferMap_state h (snd (BufferMap_delete h m k))"
    and "BufferMap_state h (BufferMap_clear m)"
  using assms
  by (auto simp: method_defs BufferMap_clear_def Map_clear_def BufferMap_state_empty
      BufferMap_state_set BufferMap_state_delete split: sum.splits option.splits)

lemma BufferMap_state_init:
  "BufferMap_state h m \<Longrightarrow> BufferMap_init h m ps = Inr m' \<Longrightarrow> BufferMap_state h m'"
proof (induction ps arbitrary: m)
  case Nil
  then show ?case by simp
next
  case (Cons p ps)
  obtain k v where p: "p = (k, v)" by (cases p)
  from Cons.prems(2) obtain m1 where "BufferMap_set h m k v = (Inr (), m1)"
    and "BufferMap_init h m1 ps = Inr m'"
    by (auto simp: p split: prod.splits sum.splits)
  moreover from this(1) have "BufferMap_state h m1"
    using BufferMap_state_methods(3) [OF Cons.prems(1), of k v] by simp
  ultimately show ?case by (metis Cons.IH)
qed

lemma BufferMap_state_constructor:
  "BufferMap_constructor h iterable = Inr m \<Longrightarrow> BufferMap_state h m"
  by (cases iterable)
     (auto simp: BufferMap_constructor_def BufferMap_state_empty
           intro: BufferMap_state_init [OF BufferMap_state_empty])

lemma BufferSet_state_methods:
  assumes "BufferSet_state h m"
  shows "BufferSet_state h (snd (BufferSet_has h m k))"
    and "BufferSet_state h (snd (BufferSet_add h m k))"
    and "BufferSet_state h (snd (BufferSet_delete h m k))"
    and "BufferSet_state h (BufferSet_clear m)"
  using assms
  by (auto simp: method_defs BufferSet_clear_def Map_clear_def BufferSet_state_empty
      BufferSet_state_add BufferSet_state_delete split: sum.splits)

lemma BufferSet_state_init:
  "BufferSet_state h m \<Longrightarrow> BufferSet_init h m ks = Inr m' \<Longrightarrow> BufferSet_state h m'"
proof (induction ks arbitrary: m)
  case Nil
  then show ?case by simp
next
  case (Cons k ks)
  from Cons.prems(2) obtain m1 where "BufferSet_add h m k = (Inr (), m1)"
    and "BufferSet_init h m1 ks = Inr m'"
    by (auto split: prod.splits sum.splits)
  moreover from this(1) have "BufferSet_state h m1"
    using BufferSet_state_methods(2) [OF Cons.prems(1), of k] by simp
  ultimately show ?case by (metis Cons.IH)
qed

lemma BufferSet_state_constructor:
  "BufferSet_constructor h iterable = Inr m \<Longrightarrow> BufferSet_state h m"
  by (cases iterable)
     (auto simp: BufferSet_constructor_def BufferSet_state_empty
           intro: BufferSet_state_init [OF BufferSet_state_empty])

lemma BufferMap_init_append:
  "BufferMap_init h m (ps @ qs) =
     (case BufferMap_init h m ps of Inl e \<Rightarrow> Inl e | Inr m' \<Rightarrow> BufferMap_init h m' qs)"
  by (induction ps arbitrary: m) (auto split: prod.splits sum.splits)

lemma distinct_keys_elsewhere:
  assumes "distinct (map fst m)" and "i < length m" and "j < length m" and "fst (m ! j) = fst (m ! i)"
  shows "j = i"
  using assms by (metis length_map nth_eq_iff_index_eq nth_map)

lemma entries_update:
  "BufferMap_entries (m[i := (s, BufferItem k v)]) = (BufferMap_entries m)[i := (k, v)]"
  by (simp add: BufferMap_entries_def Map_values_def map_update)

lemma keys_update:
  "BufferMap_keys (m[i := (s, BufferItem k v)]) = (BufferMap_keys m)[i := k]"
  by (simp add: BufferMap_keys_def Map_values_def map_update)

lemma values_update:
  "BufferMap_values (m[i := (s, BufferItem k v)]) = (BufferMap_values m)[i := v]"
  by (simp add: BufferMap_values_def Map_values_def map_update)

lemma state_key_once:
  assumes "BufferMap_state h m" and "i < length m" and "fst (m ! i) = latin1 (bytes_of k)"
    and "k' \<noteq> k"
  shows "k \<notin> set (BufferMap_keys (m[i := (latin1 (bytes_of k), BufferItem k' v)]))"
proof
  assume "k \<in> set (BufferMap_keys (m[i := (latin1 (bytes_of k), BufferItem k' v)]))"
  then have "k \<in> set ((BufferMap_keys m)[i := k'])"
    by (simp only: keys_update)
  then obtain j where "j < length ((BufferMap_keys m)[i := k'])" "(BufferMap_keys m)[i := k'] ! j = k"
    by (auto simp: in_set_conv_nth)
  then have j: "j < length m" "(BufferMap_keys m)[i := k'] ! j = k"
    by (simp_all add: BufferMap_keys_def Map_values_def)
  have len: "length (BufferMap_keys m) = length m"
    by (simp add: BufferMap_keys_def Map_values_def)
  with j assms(2,4) have ji: "j \<noteq> i" by auto
  with j have kj: "item_key (snd (m ! j)) = k"
    by (simp add: BufferMap_keys_def Map_values_def)
  from j(1) have "(fst (m ! j), snd (m ! j)) \<in> set m" by simp
  with assms(1) kj have "fst (m ! j) = latin1 (bytes_of k)"
    by (metis BufferMap_state_entry)
  moreover from assms(1) have "distinct (map fst m)"
    by (simp add: BufferMap_state_def)
  ultimately have "j = i"
    using assms(2,3) j(1) by (intro distinct_keys_elsewhere [of m]) simp_all
  with ji show False by simp
qed

section \<open>Overwriting\<close>

text \<open>
  C4. In every map state, for content-equal byte-bearing keys \<open>k1\<close> and \<open>k2\<close>:
  \<open>set(k1, v1)\<close> then \<open>set(k2, v2)\<close> both return; \<open>size\<close> after the second is \<open>size\<close>
  after the first; \<open>get\<close> of any content-equal key returns \<open>v2\<close>; iteration yields
  the pair \<open>(k2, v2)\<close> where it yielded \<open>(k1, v1)\<close> and the other entries as before, and
  the object \<open>k1\<close>, when it is another object than \<open>k2\<close>, is no longer among the keys.
  The constructor runs \<open>set\<close> over its pairs in order: when the state before was
  constructed from \<open>ps\<close>, constructing from \<open>ps\<close> followed by the two pairs gives the
  state after the two calls.
\<close>

theorem overwrite_semantics:
  assumes "byte_bearing k1" and "host_value h k1"
    and "byte_bearing k2" and "host_value h k2"
    and "bytes_of k1 = bytes_of k2"
    and "BufferMap_set h m k1 v1 = (r1, m1)"
    and "BufferMap_set h m1 k2 v2 = (r2, m2)"
  shows "r1 = Inr () \<and> r2 = Inr () \<and>
         BufferMap_size m2 = BufferMap_size m1 \<and>
         (\<forall>k3. byte_bearing k3 \<and> host_value h k3 \<and> bytes_of k3 = bytes_of k1 \<longrightarrow>
            BufferMap_get h m2 k3 = (Inr v2, m2)) \<and>
         (\<exists>i < BufferMap_size m1.
            BufferMap_entries m1 ! i = (k1, v1) \<and>
            BufferMap_entries m2 = (BufferMap_entries m1)[i := (k2, v2)]) \<and>
         (BufferMap_state h m \<and> k1 \<noteq> k2 \<longrightarrow> k1 \<notin> set (BufferMap_keys m2)) \<and>
         (BufferMap_constructor h (Some ps) = Inr m \<longrightarrow>
            BufferMap_constructor h (Some (ps @ [(k1, v1), (k2, v2)])) = Inr m2)"
proof -
  define s where "s = latin1 (bytes_of k1)"
  have t1: "toBinary h k1 = Inr s"
    using assms(1,2) by (simp add: s_def toBinary_usable usable_key_def)
  have t2: "toBinary h k2 = Inr s"
    using assms(3,4,5) by (simp add: s_def toBinary_usable usable_key_def)
  from t1 assms(6) have r1: "r1 = Inr ()" and m1: "m1 = Map_set m s (BufferItem k1 v1)"
    by (simp_all add: BufferMap_set_def)
  from t2 assms(7) have r2: "r2 = Inr ()" and m2: "m2 = Map_set m1 s (BufferItem k2 v2)"
    by (simp_all add: BufferMap_set_def)
  have has1: "Map_has m1 s" and get1: "Map_get m1 s = Some (BufferItem k1 v1)"
    by (simp_all add: m1 Map_has_set Map_get_set)
  have size: "BufferMap_size m2 = BufferMap_size m1"
    using has1 by (simp add: m2 BufferMap_size_def Map_size_def Map_set_length)
  have get: "BufferMap_get h m2 k3 = (Inr v2, m2)"
    if "byte_bearing k3 \<and> host_value h k3 \<and> bytes_of k3 = bytes_of k1" for k3
  proof -
    from that have "toBinary h k3 = Inr s"
      by (simp add: s_def toBinary_usable usable_key_def)
    then show ?thesis by (simp add: BufferMap_get_def m2 Map_get_set)
  qed
  from Map_set_present [OF has1, of "BufferItem k2 v2"] get1 m2
  obtain i where i: "i < length m1" "fst (m1 ! i) = s" "snd (m1 ! i) = BufferItem k1 v1"
    "m2 = m1[i := (s, BufferItem k2 v2)]"
    by auto
  have entry: "BufferMap_entries m1 ! i = (k1, v1)"
    using i(1,3) by (simp add: BufferMap_entries_def Map_values_def)
  have iter: "\<exists>i < BufferMap_size m1.
      BufferMap_entries m1 ! i = (k1, v1) \<and>
      BufferMap_entries m2 = (BufferMap_entries m1)[i := (k2, v2)]"
    using i(1) entry by (auto simp: i(4) entries_update BufferMap_size_def Map_size_def)
  have gone: "k1 \<notin> set (BufferMap_keys m2)" if "BufferMap_state h m \<and> k1 \<noteq> k2"
  proof -
    from that t1 have "BufferMap_state h m1"
      by (simp add: m1 BufferMap_state_set)
    moreover from that have "k2 \<noteq> k1" by blast
    ultimately show ?thesis
      using i(1,2) state_key_once [of h m1 i k1 k2 v2] by (simp add: i(4) s_def)
  qed
  have ctor: "BufferMap_constructor h (Some (ps @ [(k1, v1), (k2, v2)])) = Inr m2"
    if "BufferMap_constructor h (Some ps) = Inr m"
    using that assms(6,7) r1 r2 by (simp add: BufferMap_constructor_def BufferMap_init_append)
  from r1 r2 size get iter gone ctor show ?thesis by blast
qed

theorem overwrite_semantics_witness:
  "byte_bearing (seq 1 [9]) \<and> host_value True (seq 1 [9]) \<and>
   byte_bearing (seq 2 [9]) \<and> host_value True (seq 2 [9]) \<and>
   bytes_of (seq 1 [9]) = bytes_of (seq 2 [9]) \<and>
   BufferMap_set True [] (seq 1 [9]) (JString [97]) =
     (Inr (), [([9], BufferItem (seq 1 [9]) (JString [97]))]) \<and>
   BufferMap_set True [([9], BufferItem (seq 1 [9]) (JString [97]))] (seq 2 [9]) (JString [98]) =
     (Inr (), [([9], BufferItem (seq 2 [9]) (JString [98]))]) \<and>
   BufferMap_size [([9], BufferItem (seq 2 [9]) (JString [98]))] = 1 \<and>
   BufferMap_get True [([9], BufferItem (seq 2 [9]) (JString [98]))] (window 3 [1] [9] []) =
     (Inr (JString [98]), [([9], BufferItem (seq 2 [9]) (JString [98]))]) \<and>
   BufferMap_entries [([9], BufferItem (seq 2 [9]) (JString [98]))] = [(seq 2 [9], JString [98])] \<and>
   BufferMap_state True [] \<and> seq 1 [9] \<noteq> seq 2 [9] \<and>
   seq 1 [9] \<notin> set (BufferMap_keys [([9], BufferItem (seq 2 [9]) (JString [98]))]) \<and>
   BufferMap_constructor True (Some []) = Inr [] \<and>
   BufferMap_constructor True (Some ([] @ [(seq 1 [9], JString [97]), (seq 2 [9], JString [98])])) =
     Inr [([9], BufferItem (seq 2 [9]) (JString [98]))]"
proof -
  have k: "byte_bearing (seq 1 [9])" "host_value True (seq 1 [9])"
    "byte_bearing (seq 2 [9])" "host_value True (seq 2 [9])"
    "bytes_of (seq 1 [9]) = bytes_of (seq 2 [9])"
    by (simp_all add: example_defs)
  have s1: "BufferMap_set True [] (seq 1 [9]) (JString [97]) =
     (Inr (), [([9], BufferItem (seq 1 [9]) (JString [97]))])"
    by (simp add: BufferMap_set_def run_defs example_defs)
  have s2: "BufferMap_set True [([9], BufferItem (seq 1 [9]) (JString [97]))] (seq 2 [9])
       (JString [98]) = (Inr (), [([9], BufferItem (seq 2 [9]) (JString [98]))])"
    by (simp add: BufferMap_set_def run_defs example_defs)
  have k3: "byte_bearing (window 3 [1] [9] []) \<and> host_value True (window 3 [1] [9] []) \<and>
      bytes_of (window 3 [1] [9] []) = bytes_of (seq 1 [9])"
    by (simp add: example_defs)
  have e: "BufferMap_size [([9], BufferItem (seq 1 [9]) (JString [97]))] = 1"
    "BufferMap_entries [([9], BufferItem (seq 2 [9]) (JString [98]))] = [(seq 2 [9], JString [98])]"
    "BufferMap_state True []" "seq 1 [9] \<noteq> seq 2 [9]"
    "BufferMap_constructor True (Some []) = Inr []"
    by (simp_all add: BufferMap_size_def Map_size_def BufferMap_entries_def Map_values_def
        BufferMap_state_def BufferMap_constructor_def example_defs)
  note w = overwrite_semantics [OF k s1 s2, of "[]"]
  from w e(1) have size: "BufferMap_size [([9], BufferItem (seq 2 [9]) (JString [98]))] = 1"
    by simp
  from w k3 have get:
    "BufferMap_get True [([9], BufferItem (seq 2 [9]) (JString [98]))] (window 3 [1] [9] []) =
     (Inr (JString [98]), [([9], BufferItem (seq 2 [9]) (JString [98]))])"
    by blast
  from w e(3,4) have gone:
    "seq 1 [9] \<notin> set (BufferMap_keys [([9], BufferItem (seq 2 [9]) (JString [98]))])"
    by blast
  from w e(5) have ctor:
    "BufferMap_constructor True (Some ([] @ [(seq 1 [9], JString [97]), (seq 2 [9], JString [98])])) =
     Inr [([9], BufferItem (seq 2 [9]) (JString [98]))]"
    by blast
  from k s1 s2 size get e gone ctor show ?thesis by blast
qed

section \<open>Iteration order\<close>

text \<open>
  C5. Setting keys \<open>A\<close>, \<open>B\<close>, \<open>C\<close> of pairwise different content, in that order, in a
  new map makes \<open>keys()\<close> yield exactly \<open>[A, B, C]\<close>. Setting the content of \<open>B\<close>
  again with another key object \<open>B'\<close> leaves the order: \<open>keys()\<close> yields \<open>[A, B', C]\<close>.
  In any map state, a \<open>set\<close> with a key whose content is present changes the key
  object and the value at the position of that content and nothing else.
\<close>

theorem iteration_order:
  assumes "byte_bearing A" and "host_value h A"
    and "byte_bearing B" and "host_value h B"
    and "byte_bearing C" and "host_value h C"
    and "distinct [bytes_of A, bytes_of B, bytes_of C]"
    and "byte_bearing B'" and "host_value h B'"
  shows "BufferMap_keys (BufferMap_run h [] [MapSet A va, MapSet B vb, MapSet C vc]) = [A, B, C] \<and>
         (bytes_of B' = bytes_of B \<longrightarrow>
            BufferMap_keys (BufferMap_run h [] [MapSet A va, MapSet B vb, MapSet C vc, MapSet B' vb'])
              = [A, B', C] \<and>
            BufferMap_values (BufferMap_run h [] [MapSet A va, MapSet B vb, MapSet C vc, MapSet B' vb'])
              = [va, vb', vc]) \<and>
         (BufferMap_state h m \<and> BufferMap_has h m B' = (Inr True, m) \<longrightarrow>
            (\<exists>i < BufferMap_size m.
               bytes_of (BufferMap_keys m ! i) = bytes_of B' \<and>
               BufferMap_keys (snd (BufferMap_set h m B' v)) = (BufferMap_keys m)[i := B'] \<and>
               BufferMap_values (snd (BufferMap_set h m B' v)) = (BufferMap_values m)[i := v]))"
proof -
  have tA: "toBinary h A = Inr (latin1 (bytes_of A))"
    using assms(1,2) by (simp add: toBinary_usable usable_key_def)
  have tB: "toBinary h B = Inr (latin1 (bytes_of B))"
    using assms(3,4) by (simp add: toBinary_usable usable_key_def)
  have tC: "toBinary h C = Inr (latin1 (bytes_of C))"
    using assms(5,6) by (simp add: toBinary_usable usable_key_def)
  have tB': "toBinary h B' = Inr (latin1 (bytes_of B'))"
    using assms(8,9) by (simp add: toBinary_usable usable_key_def)
  have ne: "latin1 (bytes_of A) \<noteq> latin1 (bytes_of B)" "latin1 (bytes_of A) \<noteq> latin1 (bytes_of C)"
    "latin1 (bytes_of B) \<noteq> latin1 (bytes_of C)"
    using assms(7) by (simp_all add: latin1_inj)
  have abc: "BufferMap_run h [] [MapSet A va, MapSet B vb, MapSet C vc] =
      [(latin1 (bytes_of A), BufferItem A va), (latin1 (bytes_of B), BufferItem B vb),
       (latin1 (bytes_of C), BufferItem C vc)]"
    using tA tB tC ne by (simp add: BufferMap_set_def)
  have first: "BufferMap_keys (BufferMap_run h [] [MapSet A va, MapSet B vb, MapSet C vc]) = [A, B, C]"
    unfolding abc by (simp add: BufferMap_keys_def Map_values_def)
  have again: "BufferMap_run h [] [MapSet A va, MapSet B vb, MapSet C vc, MapSet B' vb'] =
      [(latin1 (bytes_of A), BufferItem A va), (latin1 (bytes_of B), BufferItem B' vb'),
       (latin1 (bytes_of C), BufferItem C vc)]"
    if "bytes_of B' = bytes_of B"
    using tA tB tC tB' ne that by (simp add: BufferMap_set_def)
  have second: "BufferMap_keys (BufferMap_run h [] [MapSet A va, MapSet B vb, MapSet C vc, MapSet B' vb'])
        = [A, B', C] \<and>
      BufferMap_values (BufferMap_run h [] [MapSet A va, MapSet B vb, MapSet C vc, MapSet B' vb'])
        = [va, vb', vc]"
    if "bytes_of B' = bytes_of B"
    unfolding again [OF that]
    by (simp add: BufferMap_keys_def BufferMap_values_def Map_values_def)
  have third: "\<exists>i < BufferMap_size m.
       bytes_of (BufferMap_keys m ! i) = bytes_of B' \<and>
       BufferMap_keys (snd (BufferMap_set h m B' v)) = (BufferMap_keys m)[i := B'] \<and>
       BufferMap_values (snd (BufferMap_set h m B' v)) = (BufferMap_values m)[i := v]"
    if st: "BufferMap_state h m \<and> BufferMap_has h m B' = (Inr True, m)"
  proof -
    from st tB' have "Map_has m (latin1 (bytes_of B'))"
      by (simp add: BufferMap_has_def)
    from Map_set_present [OF this, of "BufferItem B' v"]
    obtain i where i: "i < length m" "fst (m ! i) = latin1 (bytes_of B')"
      "Map_set m (latin1 (bytes_of B')) (BufferItem B' v) = m[i := (latin1 (bytes_of B'), BufferItem B' v)]"
      by blast
    from i(1) have "(fst (m ! i), snd (m ! i)) \<in> set m" by simp
    with st have "fst (m ! i) = latin1 (bytes_of (item_key (snd (m ! i))))"
      by (metis BufferMap_state_entry)
    with i(2) have "bytes_of (item_key (snd (m ! i))) = bytes_of B'"
      by (simp add: latin1_inj)
    with i(1) have "bytes_of (BufferMap_keys m ! i) = bytes_of B'"
      by (simp add: BufferMap_keys_def Map_values_def)
    moreover have "BufferMap_keys (snd (BufferMap_set h m B' v)) = (BufferMap_keys m)[i := B']"
      using tB' i(3) by (simp add: BufferMap_set_def keys_update)
    moreover have "BufferMap_values (snd (BufferMap_set h m B' v)) = (BufferMap_values m)[i := v]"
      using tB' i(3) by (simp add: BufferMap_set_def values_update)
    ultimately show ?thesis
      using i(1) by (auto simp: BufferMap_size_def Map_size_def)
  qed
  from first second third show ?thesis by blast
qed

theorem iteration_order_witness:
  "byte_bearing (seq 1 [1]) \<and> host_value True (seq 1 [1]) \<and>
   byte_bearing (seq 2 [2]) \<and> host_value True (seq 2 [2]) \<and>
   byte_bearing (seq 3 [3]) \<and> host_value True (seq 3 [3]) \<and>
   distinct [bytes_of (seq 1 [1]), bytes_of (seq 2 [2]), bytes_of (seq 3 [3])] \<and>
   byte_bearing (seq 4 [2]) \<and> host_value True (seq 4 [2]) \<and>
   bytes_of (seq 4 [2]) = bytes_of (seq 2 [2]) \<and>
   BufferMap_keys (BufferMap_run True [] [MapSet (seq 1 [1]) (JNumber 1), MapSet (seq 2 [2]) (JNumber 2),
      MapSet (seq 3 [3]) (JNumber 3)]) = [seq 1 [1], seq 2 [2], seq 3 [3]] \<and>
   BufferMap_keys (BufferMap_run True [] [MapSet (seq 1 [1]) (JNumber 1), MapSet (seq 2 [2]) (JNumber 2),
      MapSet (seq 3 [3]) (JNumber 3), MapSet (seq 4 [2]) (JNumber 20)]) = [seq 1 [1], seq 4 [2], seq 3 [3]] \<and>
   BufferMap_values (BufferMap_run True [] [MapSet (seq 1 [1]) (JNumber 1), MapSet (seq 2 [2]) (JNumber 2),
      MapSet (seq 3 [3]) (JNumber 3), MapSet (seq 4 [2]) (JNumber 20)]) = [JNumber 1, JNumber 20, JNumber 3] \<and>
   BufferMap_state True [([1], BufferItem (seq 1 [1]) (JNumber 1)), ([2], BufferItem (seq 2 [2]) (JNumber 2)),
      ([3], BufferItem (seq 3 [3]) (JNumber 3))] \<and>
   BufferMap_has True [([1], BufferItem (seq 1 [1]) (JNumber 1)), ([2], BufferItem (seq 2 [2]) (JNumber 2)),
      ([3], BufferItem (seq 3 [3]) (JNumber 3))] (seq 4 [2]) = (Inr True, [([1], BufferItem (seq 1 [1]) (JNumber 1)), ([2], BufferItem (seq 2 [2]) (JNumber 2)),
      ([3], BufferItem (seq 3 [3]) (JNumber 3))]) \<and>
   (\<exists>i < BufferMap_size [([1], BufferItem (seq 1 [1]) (JNumber 1)), ([2], BufferItem (seq 2 [2]) (JNumber 2)),
      ([3], BufferItem (seq 3 [3]) (JNumber 3))].
      bytes_of (BufferMap_keys [([1], BufferItem (seq 1 [1]) (JNumber 1)), ([2], BufferItem (seq 2 [2]) (JNumber 2)),
      ([3], BufferItem (seq 3 [3]) (JNumber 3))] ! i) = bytes_of (seq 4 [2]) \<and>
      BufferMap_keys (snd (BufferMap_set True [([1], BufferItem (seq 1 [1]) (JNumber 1)), ([2], BufferItem (seq 2 [2]) (JNumber 2)),
      ([3], BufferItem (seq 3 [3]) (JNumber 3))] (seq 4 [2]) (JNumber 20))) =
        (BufferMap_keys [([1], BufferItem (seq 1 [1]) (JNumber 1)), ([2], BufferItem (seq 2 [2]) (JNumber 2)),
      ([3], BufferItem (seq 3 [3]) (JNumber 3))])[i := seq 4 [2]] \<and>
      BufferMap_values (snd (BufferMap_set True [([1], BufferItem (seq 1 [1]) (JNumber 1)), ([2], BufferItem (seq 2 [2]) (JNumber 2)),
      ([3], BufferItem (seq 3 [3]) (JNumber 3))] (seq 4 [2]) (JNumber 20))) =
        (BufferMap_values [([1], BufferItem (seq 1 [1]) (JNumber 1)), ([2], BufferItem (seq 2 [2]) (JNumber 2)),
      ([3], BufferItem (seq 3 [3]) (JNumber 3))])[i := JNumber 20])"
proof -
  have k: "byte_bearing (seq 1 [1])" "host_value True (seq 1 [1])"
    "byte_bearing (seq 2 [2])" "host_value True (seq 2 [2])"
    "byte_bearing (seq 3 [3])" "host_value True (seq 3 [3])"
    "distinct [bytes_of (seq 1 [1]), bytes_of (seq 2 [2]), bytes_of (seq 3 [3])]"
    "byte_bearing (seq 4 [2])" "host_value True (seq 4 [2])"
    by (simp_all add: example_defs)
  have b: "bytes_of (seq 4 [2]) = bytes_of (seq 2 [2])"
    by (simp add: example_defs)
  have st: "BufferMap_state True [([1], BufferItem (seq 1 [1]) (JNumber 1)), ([2], BufferItem (seq 2 [2]) (JNumber 2)),
      ([3], BufferItem (seq 3 [3]) (JNumber 3))]"
    by (simp add: BufferMap_state_def run_defs example_defs)
  have has: "BufferMap_has True [([1], BufferItem (seq 1 [1]) (JNumber 1)), ([2], BufferItem (seq 2 [2]) (JNumber 2)),
      ([3], BufferItem (seq 3 [3]) (JNumber 3))] (seq 4 [2]) = (Inr True, [([1], BufferItem (seq 1 [1]) (JNumber 1)), ([2], BufferItem (seq 2 [2]) (JNumber 2)),
      ([3], BufferItem (seq 3 [3]) (JNumber 3))])"
    by (simp add: BufferMap_has_def run_defs example_defs)
  note w = iteration_order [OF k, of "JNumber 1" "JNumber 2" "JNumber 3" "JNumber 20"
      "[([1], BufferItem (seq 1 [1]) (JNumber 1)), ([2], BufferItem (seq 2 [2]) (JNumber 2)),
      ([3], BufferItem (seq 3 [3]) (JNumber 3))]" "JNumber 20"]
  from w b st has k show ?thesis by blast
qed

section \<open>Deletion\<close>

lemma BufferMap_entries_delete:
  assumes "BufferMap_state h m"
  shows "BufferMap_entries (snd (Map_delete m (latin1 bs))) =
         filter (\<lambda>(key, v). bytes_of key \<noteq> bs) (BufferMap_entries m)"
proof -
  have d: "distinct (map fst m)"
    using assms by (simp add: BufferMap_state_def)
  have "fst p \<noteq> latin1 bs \<longleftrightarrow> bytes_of (item_key (snd p)) \<noteq> bs" if "p \<in> set m" for p
  proof -
    from that have "(fst p, snd p) \<in> set m" by simp
    with assms have "fst p = latin1 (bytes_of (item_key (snd p)))"
      by (rule BufferMap_state_entry)
    then show ?thesis by (simp add: latin1_inj)
  qed
  then have "filter (\<lambda>p. fst p \<noteq> latin1 bs) m = filter (\<lambda>p. bytes_of (item_key (snd p)) \<noteq> bs) m"
    by (intro filter_cong) simp_all
  then show ?thesis
    by (simp add: Map_delete_filter [OF d] BufferMap_entries_def Map_values_def filter_map o_def)
qed

lemma BufferSet_keys_delete:
  assumes "BufferSet_state h m"
  shows "BufferSet_keys (snd (Map_delete m (latin1 bs))) =
         filter (\<lambda>key. bytes_of key \<noteq> bs) (BufferSet_keys m)"
proof -
  have d: "distinct (map fst m)"
    using assms by (simp add: BufferSet_state_def)
  have "fst p \<noteq> latin1 bs \<longleftrightarrow> bytes_of (snd p) \<noteq> bs" if "p \<in> set m" for p
  proof -
    from that have "(fst p, snd p) \<in> set m" by simp
    with assms have "fst p = latin1 (bytes_of (snd p))"
      by (rule BufferSet_state_entry)
    then show ?thesis by (simp add: latin1_inj)
  qed
  then have "filter (\<lambda>p. fst p \<noteq> latin1 bs) m = filter (\<lambda>p. bytes_of (snd p) \<noteq> bs) m"
    by (intro filter_cong) simp_all
  then show ?thesis
    by (simp add: Map_delete_filter [OF d] BufferSet_keys_def Map_values_def filter_map o_def)
qed

text \<open>
  C7. In every container state and for every byte-bearing key \<open>k\<close>: when the content of
  \<open>k\<close> is present, \<open>delete(k)\<close> returns true, \<open>size\<close> goes down by exactly one, the
  content is no longer there and the entries of every other content stay, in their
  order; when the content of \<open>k\<close> is absent, \<open>delete(k)\<close> returns false and the
  container is as before. The same holds of a BufferSet.
\<close>

theorem deletion:
  assumes "byte_bearing k" and "host_value h k"
    and "BufferMap_state h m" and "BufferSet_state h s"
  shows "(BufferMap_has h m k = (Inr True, m) \<longrightarrow>
            fst (BufferMap_delete h m k) = Inr True \<and>
            Suc (BufferMap_size (snd (BufferMap_delete h m k))) = BufferMap_size m \<and>
            BufferMap_has h (snd (BufferMap_delete h m k)) k =
              (Inr False, snd (BufferMap_delete h m k)) \<and>
            BufferMap_entries (snd (BufferMap_delete h m k)) =
              filter (\<lambda>(key, v). bytes_of key \<noteq> bytes_of k) (BufferMap_entries m)) \<and>
         (BufferMap_has h m k = (Inr False, m) \<longrightarrow> BufferMap_delete h m k = (Inr False, m)) \<and>
         (BufferSet_has h s k = (Inr True, s) \<longrightarrow>
            fst (BufferSet_delete h s k) = Inr True \<and>
            Suc (BufferSet_size (snd (BufferSet_delete h s k))) = BufferSet_size s \<and>
            BufferSet_has h (snd (BufferSet_delete h s k)) k =
              (Inr False, snd (BufferSet_delete h s k)) \<and>
            BufferSet_keys (snd (BufferSet_delete h s k)) =
              filter (\<lambda>key. bytes_of key \<noteq> bytes_of k) (BufferSet_keys s)) \<and>
         (BufferSet_has h s k = (Inr False, s) \<longrightarrow> BufferSet_delete h s k = (Inr False, s))"
proof -
  have t: "toBinary h k = Inr (latin1 (bytes_of k))"
    using assms(1,2) by (simp add: toBinary_usable usable_key_def)
  have dm: "distinct (map fst m)" using assms(3) by (simp add: BufferMap_state_def)
  have ds: "distinct (map fst s)" using assms(4) by (simp add: BufferSet_state_def)
  have m_present: "fst (BufferMap_delete h m k) = Inr True \<and>
      Suc (BufferMap_size (snd (BufferMap_delete h m k))) = BufferMap_size m \<and>
      BufferMap_has h (snd (BufferMap_delete h m k)) k = (Inr False, snd (BufferMap_delete h m k)) \<and>
      BufferMap_entries (snd (BufferMap_delete h m k)) =
        filter (\<lambda>(key, v). bytes_of key \<noteq> bytes_of k) (BufferMap_entries m)"
    if "BufferMap_has h m k = (Inr True, m)"
  proof -
    from that t have has: "Map_has m (latin1 (bytes_of k))"
      by (simp add: BufferMap_has_def)
    then have "0 < length m" by (rule Map_has_nonempty)
    with has t show ?thesis
      by (simp add: BufferMap_delete_def BufferMap_has_def BufferMap_size_def Map_size_def
          Map_delete_fst Map_delete_length Map_delete_has [OF dm]
          BufferMap_entries_delete [OF assms(3)])
  qed
  have m_absent: "BufferMap_delete h m k = (Inr False, m)"
    if "BufferMap_has h m k = (Inr False, m)"
    using that t by (simp add: BufferMap_delete_def BufferMap_has_def Map_delete_fst
        Map_delete_absent)
  have s_present: "fst (BufferSet_delete h s k) = Inr True \<and>
      Suc (BufferSet_size (snd (BufferSet_delete h s k))) = BufferSet_size s \<and>
      BufferSet_has h (snd (BufferSet_delete h s k)) k = (Inr False, snd (BufferSet_delete h s k)) \<and>
      BufferSet_keys (snd (BufferSet_delete h s k)) =
        filter (\<lambda>key. bytes_of key \<noteq> bytes_of k) (BufferSet_keys s)"
    if "BufferSet_has h s k = (Inr True, s)"
  proof -
    from that t have has: "Map_has s (latin1 (bytes_of k))"
      by (simp add: BufferSet_has_def)
    then have "0 < length s" by (rule Map_has_nonempty)
    with has t show ?thesis
      by (simp add: BufferSet_delete_def BufferSet_has_def BufferSet_size_def Map_size_def
          Map_delete_fst Map_delete_length Map_delete_has [OF ds]
          BufferSet_keys_delete [OF assms(4)])
  qed
  have s_absent: "BufferSet_delete h s k = (Inr False, s)"
    if "BufferSet_has h s k = (Inr False, s)"
    using that t by (simp add: BufferSet_delete_def BufferSet_has_def Map_delete_fst
        Map_delete_absent)
  from m_present m_absent s_present s_absent show ?thesis by blast
qed

theorem deletion_witness:
  "byte_bearing (seq 5 [2]) \<and> host_value True (seq 5 [2]) \<and>
   byte_bearing (seq 6 [7]) \<and> host_value True (seq 6 [7]) \<and>
   BufferMap_state True [([1], BufferItem (seq 1 [1]) (JNumber 1)), ([2], BufferItem (seq 2 [2]) (JNumber 2)),
      ([3], BufferItem (seq 3 [3]) (JNumber 3))] \<and>
   BufferSet_state True [([2], seq 2 [2]), ([3], seq 3 [3])] \<and>
   BufferMap_has True [([1], BufferItem (seq 1 [1]) (JNumber 1)), ([2], BufferItem (seq 2 [2]) (JNumber 2)),
      ([3], BufferItem (seq 3 [3]) (JNumber 3))] (seq 5 [2]) = (Inr True, [([1], BufferItem (seq 1 [1]) (JNumber 1)), ([2], BufferItem (seq 2 [2]) (JNumber 2)),
      ([3], BufferItem (seq 3 [3]) (JNumber 3))]) \<and>
   BufferMap_delete True [([1], BufferItem (seq 1 [1]) (JNumber 1)), ([2], BufferItem (seq 2 [2]) (JNumber 2)),
      ([3], BufferItem (seq 3 [3]) (JNumber 3))] (seq 5 [2]) = (Inr True, [([1], BufferItem (seq 1 [1]) (JNumber 1)), ([3], BufferItem (seq 3 [3]) (JNumber 3))]) \<and>
   Suc (BufferMap_size (snd (BufferMap_delete True [([1], BufferItem (seq 1 [1]) (JNumber 1)), ([2], BufferItem (seq 2 [2]) (JNumber 2)),
      ([3], BufferItem (seq 3 [3]) (JNumber 3))] (seq 5 [2])))) = BufferMap_size [([1], BufferItem (seq 1 [1]) (JNumber 1)), ([2], BufferItem (seq 2 [2]) (JNumber 2)),
      ([3], BufferItem (seq 3 [3]) (JNumber 3))] \<and>
   BufferMap_has True (snd (BufferMap_delete True [([1], BufferItem (seq 1 [1]) (JNumber 1)), ([2], BufferItem (seq 2 [2]) (JNumber 2)),
      ([3], BufferItem (seq 3 [3]) (JNumber 3))] (seq 5 [2]))) (seq 5 [2]) =
     (Inr False, snd (BufferMap_delete True [([1], BufferItem (seq 1 [1]) (JNumber 1)), ([2], BufferItem (seq 2 [2]) (JNumber 2)),
      ([3], BufferItem (seq 3 [3]) (JNumber 3))] (seq 5 [2]))) \<and>
   BufferMap_entries (snd (BufferMap_delete True [([1], BufferItem (seq 1 [1]) (JNumber 1)), ([2], BufferItem (seq 2 [2]) (JNumber 2)),
      ([3], BufferItem (seq 3 [3]) (JNumber 3))] (seq 5 [2]))) =
     filter (\<lambda>(key, v). bytes_of key \<noteq> bytes_of (seq 5 [2])) (BufferMap_entries [([1], BufferItem (seq 1 [1]) (JNumber 1)), ([2], BufferItem (seq 2 [2]) (JNumber 2)),
      ([3], BufferItem (seq 3 [3]) (JNumber 3))]) \<and>
   BufferMap_has True [([1], BufferItem (seq 1 [1]) (JNumber 1)), ([2], BufferItem (seq 2 [2]) (JNumber 2)),
      ([3], BufferItem (seq 3 [3]) (JNumber 3))] (seq 6 [7]) = (Inr False, [([1], BufferItem (seq 1 [1]) (JNumber 1)), ([2], BufferItem (seq 2 [2]) (JNumber 2)),
      ([3], BufferItem (seq 3 [3]) (JNumber 3))]) \<and>
   BufferMap_delete True [([1], BufferItem (seq 1 [1]) (JNumber 1)), ([2], BufferItem (seq 2 [2]) (JNumber 2)),
      ([3], BufferItem (seq 3 [3]) (JNumber 3))] (seq 6 [7]) = (Inr False, [([1], BufferItem (seq 1 [1]) (JNumber 1)), ([2], BufferItem (seq 2 [2]) (JNumber 2)),
      ([3], BufferItem (seq 3 [3]) (JNumber 3))]) \<and>
   BufferSet_has True [([2], seq 2 [2]), ([3], seq 3 [3])] (seq 5 [2]) = (Inr True, [([2], seq 2 [2]), ([3], seq 3 [3])]) \<and>
   BufferSet_delete True [([2], seq 2 [2]), ([3], seq 3 [3])] (seq 5 [2]) = (Inr True, [([3], seq 3 [3])]) \<and>
   Suc (BufferSet_size (snd (BufferSet_delete True [([2], seq 2 [2]), ([3], seq 3 [3])] (seq 5 [2])))) = BufferSet_size [([2], seq 2 [2]), ([3], seq 3 [3])] \<and>
   BufferSet_has True (snd (BufferSet_delete True [([2], seq 2 [2]), ([3], seq 3 [3])] (seq 5 [2]))) (seq 5 [2]) =
     (Inr False, snd (BufferSet_delete True [([2], seq 2 [2]), ([3], seq 3 [3])] (seq 5 [2]))) \<and>
   BufferSet_keys (snd (BufferSet_delete True [([2], seq 2 [2]), ([3], seq 3 [3])] (seq 5 [2]))) =
     filter (\<lambda>key. bytes_of key \<noteq> bytes_of (seq 5 [2])) (BufferSet_keys [([2], seq 2 [2]), ([3], seq 3 [3])]) \<and>
   BufferSet_has True [([2], seq 2 [2]), ([3], seq 3 [3])] (seq 6 [7]) = (Inr False, [([2], seq 2 [2]), ([3], seq 3 [3])]) \<and>
   BufferSet_delete True [([2], seq 2 [2]), ([3], seq 3 [3])] (seq 6 [7]) = (Inr False, [([2], seq 2 [2]), ([3], seq 3 [3])])"
proof -
  have k: "byte_bearing (seq 5 [2])" "host_value True (seq 5 [2])"
    and k': "byte_bearing (seq 6 [7])" "host_value True (seq 6 [7])"
    by (simp_all add: example_defs)
  have st: "BufferMap_state True [([1], BufferItem (seq 1 [1]) (JNumber 1)), ([2], BufferItem (seq 2 [2]) (JNumber 2)),
      ([3], BufferItem (seq 3 [3]) (JNumber 3))]"
    "BufferSet_state True [([2], seq 2 [2]), ([3], seq 3 [3])]"
    by (simp_all add: BufferMap_state_def BufferSet_state_def run_defs example_defs)
  have present: "BufferMap_has True [([1], BufferItem (seq 1 [1]) (JNumber 1)), ([2], BufferItem (seq 2 [2]) (JNumber 2)),
      ([3], BufferItem (seq 3 [3]) (JNumber 3))] (seq 5 [2]) = (Inr True, [([1], BufferItem (seq 1 [1]) (JNumber 1)), ([2], BufferItem (seq 2 [2]) (JNumber 2)),
      ([3], BufferItem (seq 3 [3]) (JNumber 3))])"
    "BufferSet_has True [([2], seq 2 [2]), ([3], seq 3 [3])] (seq 5 [2]) = (Inr True, [([2], seq 2 [2]), ([3], seq 3 [3])])"
    by (simp_all add: BufferMap_has_def BufferSet_has_def run_defs example_defs)
  have absent: "BufferMap_has True [([1], BufferItem (seq 1 [1]) (JNumber 1)), ([2], BufferItem (seq 2 [2]) (JNumber 2)),
      ([3], BufferItem (seq 3 [3]) (JNumber 3))] (seq 6 [7]) = (Inr False, [([1], BufferItem (seq 1 [1]) (JNumber 1)), ([2], BufferItem (seq 2 [2]) (JNumber 2)),
      ([3], BufferItem (seq 3 [3]) (JNumber 3))])"
    "BufferSet_has True [([2], seq 2 [2]), ([3], seq 3 [3])] (seq 6 [7]) = (Inr False, [([2], seq 2 [2]), ([3], seq 3 [3])])"
    by (simp_all add: BufferMap_has_def BufferSet_has_def run_defs example_defs)
  have run: "BufferMap_delete True [([1], BufferItem (seq 1 [1]) (JNumber 1)), ([2], BufferItem (seq 2 [2]) (JNumber 2)),
      ([3], BufferItem (seq 3 [3]) (JNumber 3))] (seq 5 [2]) = (Inr True, [([1], BufferItem (seq 1 [1]) (JNumber 1)), ([3], BufferItem (seq 3 [3]) (JNumber 3))])"
    "BufferSet_delete True [([2], seq 2 [2]), ([3], seq 3 [3])] (seq 5 [2]) = (Inr True, [([3], seq 3 [3])])"
    by (simp_all add: BufferMap_delete_def BufferSet_delete_def run_defs example_defs)
  note w = deletion [OF k st] and w' = deletion [OF k' st]
  from w present have one:
    "Suc (BufferMap_size (snd (BufferMap_delete True [([1], BufferItem (seq 1 [1]) (JNumber 1)), ([2], BufferItem (seq 2 [2]) (JNumber 2)),
      ([3], BufferItem (seq 3 [3]) (JNumber 3))] (seq 5 [2])))) = BufferMap_size [([1], BufferItem (seq 1 [1]) (JNumber 1)), ([2], BufferItem (seq 2 [2]) (JNumber 2)),
      ([3], BufferItem (seq 3 [3]) (JNumber 3))] \<and>
     BufferMap_has True (snd (BufferMap_delete True [([1], BufferItem (seq 1 [1]) (JNumber 1)), ([2], BufferItem (seq 2 [2]) (JNumber 2)),
      ([3], BufferItem (seq 3 [3]) (JNumber 3))] (seq 5 [2]))) (seq 5 [2]) =
       (Inr False, snd (BufferMap_delete True [([1], BufferItem (seq 1 [1]) (JNumber 1)), ([2], BufferItem (seq 2 [2]) (JNumber 2)),
      ([3], BufferItem (seq 3 [3]) (JNumber 3))] (seq 5 [2]))) \<and>
     BufferMap_entries (snd (BufferMap_delete True [([1], BufferItem (seq 1 [1]) (JNumber 1)), ([2], BufferItem (seq 2 [2]) (JNumber 2)),
      ([3], BufferItem (seq 3 [3]) (JNumber 3))] (seq 5 [2]))) =
       filter (\<lambda>(key, v). bytes_of key \<noteq> bytes_of (seq 5 [2])) (BufferMap_entries [([1], BufferItem (seq 1 [1]) (JNumber 1)), ([2], BufferItem (seq 2 [2]) (JNumber 2)),
      ([3], BufferItem (seq 3 [3]) (JNumber 3))])"
    by blast
  from w present have two:
    "Suc (BufferSet_size (snd (BufferSet_delete True [([2], seq 2 [2]), ([3], seq 3 [3])] (seq 5 [2])))) = BufferSet_size [([2], seq 2 [2]), ([3], seq 3 [3])] \<and>
     BufferSet_has True (snd (BufferSet_delete True [([2], seq 2 [2]), ([3], seq 3 [3])] (seq 5 [2]))) (seq 5 [2]) =
       (Inr False, snd (BufferSet_delete True [([2], seq 2 [2]), ([3], seq 3 [3])] (seq 5 [2]))) \<and>
     BufferSet_keys (snd (BufferSet_delete True [([2], seq 2 [2]), ([3], seq 3 [3])] (seq 5 [2]))) =
       filter (\<lambda>key. bytes_of key \<noteq> bytes_of (seq 5 [2])) (BufferSet_keys [([2], seq 2 [2]), ([3], seq 3 [3])])"
    by blast
  from w' absent have three:
    "BufferMap_delete True [([1], BufferItem (seq 1 [1]) (JNumber 1)), ([2], BufferItem (seq 2 [2]) (JNumber 2)),
      ([3], BufferItem (seq 3 [3]) (JNumber 3))] (seq 6 [7]) = (Inr False, [([1], BufferItem (seq 1 [1]) (JNumber 1)), ([2], BufferItem (seq 2 [2]) (JNumber 2)),
      ([3], BufferItem (seq 3 [3]) (JNumber 3))])"
    "BufferSet_delete True [([2], seq 2 [2]), ([3], seq 3 [3])] (seq 6 [7]) = (Inr False, [([2], seq 2 [2]), ([3], seq 3 [3])])"
    by blast+
  from k k' st present absent run one two three show ?thesis by blast
qed

section \<open>Size\<close>

lemma inj_latin1: "inj latin1"
  by (rule injI) (simp add: latin1_inj)

lemma Map_set_canon: "set (map fst (Map_set m k v)) = insert k (set (map fst m))"
  by (auto simp: Map_set_keys Map_has_iff)

lemma Map_delete_canon:
  "distinct (map fst m) \<Longrightarrow> set (map fst (snd (Map_delete m k))) = set (map fst m) - {k}"
  by (auto simp: Map_delete_filter)

lemma latin1_image_delete: "latin1 ` S - {latin1 b} = latin1 ` (S - {b})"
  using inj_latin1 by (auto simp: latin1_inj)

lemma BufferMap_state_canon:
  "BufferMap_state h m \<Longrightarrow> set (map fst m) = latin1 ` bytes_of ` set (BufferMap_keys m)"
proof -
  assume st: "BufferMap_state h m"
  have "fst p = latin1 (bytes_of (item_key (snd p)))" if "p \<in> set m" for p
  proof -
    from that have "(fst p, snd p) \<in> set m" by simp
    with st show ?thesis by (rule BufferMap_state_entry)
  qed
  then have "map fst m = map (\<lambda>p. latin1 (bytes_of (item_key (snd p)))) m"
    by (intro map_cong) simp_all
  then show ?thesis
    by (simp add: BufferMap_keys_def Map_values_def image_image)
qed

lemma BufferSet_state_canon:
  "BufferSet_state h m \<Longrightarrow> set (map fst m) = latin1 ` bytes_of ` set (BufferSet_keys m)"
proof -
  assume st: "BufferSet_state h m"
  have "fst p = latin1 (bytes_of (snd p))" if "p \<in> set m" for p
  proof -
    from that have "(fst p, snd p) \<in> set m" by simp
    with st show ?thesis by (rule BufferSet_state_entry)
  qed
  then have "map fst m = map (\<lambda>p. latin1 (bytes_of (snd p))) m"
    by (intro map_cong) simp_all
  then show ?thesis
    by (simp add: BufferSet_keys_def Map_values_def image_image)
qed

lemma BufferMap_run_present:
  assumes "BufferMap_state h m" and "set (map fst m) = latin1 ` S"
    and "list_all (usable_key h) (concat (map map_op_keys ops))"
  shows "BufferMap_state h (BufferMap_run h m ops) \<and>
         set (map fst (BufferMap_run h m ops)) = latin1 ` map_present S ops"
  using assms
proof (induction ops arbitrary: m S)
  case Nil
  then show ?case by simp
next
  case (Cons op ops)
  from Cons.prems(3) have rest: "list_all (usable_key h) (concat (map map_op_keys ops))"
    by simp
  from Cons.prems(1) have d: "distinct (map fst m)"
    by (simp add: BufferMap_state_def)
  show ?case
  proof (cases op)
    case (MapSet key val)
    with Cons.prems(3) have t: "toBinary h key = Inr (latin1 (bytes_of key))"
      by (simp add: toBinary_usable)
    then have step: "BufferMap_step h m op = Map_set m (latin1 (bytes_of key)) (BufferItem key val)"
      by (simp add: MapSet BufferMap_set_def)
    have "BufferMap_state h (BufferMap_step h m op)"
      unfolding step using Cons.prems(1) t by (rule BufferMap_state_set)
    moreover have "set (map fst (BufferMap_step h m op)) = latin1 ` insert (bytes_of key) S"
      by (simp only: step Map_set_canon Cons.prems(2) image_insert)
    ultimately have "BufferMap_state h (BufferMap_run h (BufferMap_step h m op) ops) \<and>
        set (map fst (BufferMap_run h (BufferMap_step h m op) ops)) = latin1 ` map_present S (op # ops)"
      using Cons.IH [OF _ _ rest] by (simp only: MapSet map_present.simps)
    then show ?thesis by (simp only: BufferMap_run.simps)
  next
    case (MapDelete key)
    with Cons.prems(3) have t: "toBinary h key = Inr (latin1 (bytes_of key))"
      by (simp add: toBinary_usable)
    then have step: "BufferMap_step h m op = snd (Map_delete m (latin1 (bytes_of key)))"
      by (simp add: MapDelete BufferMap_delete_def)
    have "BufferMap_state h (BufferMap_step h m op)"
      unfolding step using Cons.prems(1) by (rule BufferMap_state_delete)
    moreover have "set (map fst (BufferMap_step h m op)) = latin1 ` (S - {bytes_of key})"
      by (simp only: step Map_delete_canon [OF d] Cons.prems(2) latin1_image_delete)
    ultimately have "BufferMap_state h (BufferMap_run h (BufferMap_step h m op) ops) \<and>
        set (map fst (BufferMap_run h (BufferMap_step h m op) ops)) = latin1 ` map_present S (op # ops)"
      using Cons.IH [OF _ _ rest] by (simp only: MapDelete map_present.simps)
    then show ?thesis by (simp only: BufferMap_run.simps)
  next
    case MapClear
    have "BufferMap_state h (BufferMap_step h m op)"
      by (simp add: MapClear BufferMap_clear_def Map_clear_def BufferMap_state_empty)
    moreover have "set (map fst (BufferMap_step h m op)) = latin1 ` {}"
      by (simp add: MapClear BufferMap_clear_def Map_clear_def)
    ultimately have "BufferMap_state h (BufferMap_run h (BufferMap_step h m op) ops) \<and>
        set (map fst (BufferMap_run h (BufferMap_step h m op) ops)) = latin1 ` map_present S (op # ops)"
      using Cons.IH [OF _ _ rest] by (simp only: MapClear map_present.simps)
    then show ?thesis by (simp only: BufferMap_run.simps)
  qed
qed

lemma BufferSet_run_present:
  assumes "BufferSet_state h m" and "set (map fst m) = latin1 ` S"
    and "list_all (usable_key h) (concat (map set_op_keys ops))"
  shows "BufferSet_state h (BufferSet_run h m ops) \<and>
         set (map fst (BufferSet_run h m ops)) = latin1 ` set_present S ops"
  using assms
proof (induction ops arbitrary: m S)
  case Nil
  then show ?case by simp
next
  case (Cons op ops)
  from Cons.prems(3) have rest: "list_all (usable_key h) (concat (map set_op_keys ops))"
    by simp
  from Cons.prems(1) have d: "distinct (map fst m)"
    by (simp add: BufferSet_state_def)
  show ?case
  proof (cases op)
    case (SetAdd key)
    with Cons.prems(3) have t: "toBinary h key = Inr (latin1 (bytes_of key))"
      by (simp add: toBinary_usable)
    then have step: "BufferSet_step h m op = Map_set m (latin1 (bytes_of key)) key"
      by (simp add: SetAdd BufferSet_add_def)
    have "BufferSet_state h (BufferSet_step h m op)"
      unfolding step using Cons.prems(1) t by (rule BufferSet_state_add)
    moreover have "set (map fst (BufferSet_step h m op)) = latin1 ` insert (bytes_of key) S"
      by (simp only: step Map_set_canon Cons.prems(2) image_insert)
    ultimately have "BufferSet_state h (BufferSet_run h (BufferSet_step h m op) ops) \<and>
        set (map fst (BufferSet_run h (BufferSet_step h m op) ops)) = latin1 ` set_present S (op # ops)"
      using Cons.IH [OF _ _ rest] by (simp only: SetAdd set_present.simps)
    then show ?thesis by (simp only: BufferSet_run.simps)
  next
    case (SetDelete key)
    with Cons.prems(3) have t: "toBinary h key = Inr (latin1 (bytes_of key))"
      by (simp add: toBinary_usable)
    then have step: "BufferSet_step h m op = snd (Map_delete m (latin1 (bytes_of key)))"
      by (simp add: SetDelete BufferSet_delete_def)
    have "BufferSet_state h (BufferSet_step h m op)"
      unfolding step using Cons.prems(1) by (rule BufferSet_state_delete)
    moreover have "set (map fst (BufferSet_step h m op)) = latin1 ` (S - {bytes_of key})"
      by (simp only: step Map_delete_canon [OF d] Cons.prems(2) latin1_image_delete)
    ultimately have "BufferSet_state h (BufferSet_run h (BufferSet_step h m op) ops) \<and>
        set (map fst (BufferSet_run h (BufferSet_step h m op) ops)) = latin1 ` set_present S (op # ops)"
      using Cons.IH [OF _ _ rest] by (simp only: SetDelete set_present.simps)
    then show ?thesis by (simp only: BufferSet_run.simps)
  next
    case SetClear
    have "BufferSet_state h (BufferSet_step h m op)"
      by (simp add: SetClear BufferSet_clear_def Map_clear_def BufferSet_state_empty)
    moreover have "set (map fst (BufferSet_step h m op)) = latin1 ` {}"
      by (simp add: SetClear BufferSet_clear_def Map_clear_def)
    ultimately have "BufferSet_state h (BufferSet_run h (BufferSet_step h m op) ops) \<and>
        set (map fst (BufferSet_run h (BufferSet_step h m op) ops)) = latin1 ` set_present S (op # ops)"
      using Cons.IH [OF _ _ rest] by (simp only: SetClear set_present.simps)
    then show ?thesis by (simp only: BufferSet_run.simps)
  qed
qed

lemma BufferMap_run_size:
  assumes "BufferMap_state h m" and "set (map fst m) = latin1 ` S"
    and "list_all (usable_key h) (concat (map map_op_keys ops))"
  shows "BufferMap_size (BufferMap_run h m ops) = card (map_present S ops)"
proof -
  from BufferMap_run_present [OF assms]
  have "distinct (map fst (BufferMap_run h m ops))"
    and "set (map fst (BufferMap_run h m ops)) = latin1 ` map_present S ops"
    by (simp_all add: BufferMap_state_def)
  then have "Map_size (BufferMap_run h m ops) = card (latin1 ` map_present S ops)"
    by (simp add: Map_size_card)
  also have "\<dots> = card (map_present S ops)"
    by (rule card_image) (rule inj_on_subset [OF inj_latin1], simp)
  finally show ?thesis by (simp add: BufferMap_size_def)
qed

lemma BufferSet_run_size:
  assumes "BufferSet_state h m" and "set (map fst m) = latin1 ` S"
    and "list_all (usable_key h) (concat (map set_op_keys ops))"
  shows "BufferSet_size (BufferSet_run h m ops) = card (set_present S ops)"
proof -
  from BufferSet_run_present [OF assms]
  have "distinct (map fst (BufferSet_run h m ops))"
    and "set (map fst (BufferSet_run h m ops)) = latin1 ` set_present S ops"
    by (simp_all add: BufferSet_state_def)
  then have "Map_size (BufferSet_run h m ops) = card (latin1 ` set_present S ops)"
    by (simp add: Map_size_card)
  also have "\<dots> = card (set_present S ops)"
    by (rule card_image) (rule inj_on_subset [OF inj_latin1], simp)
  finally show ?thesis by (simp add: BufferSet_size_def)
qed

text \<open>
  C6. Start from any container state and run any sequence of \<open>set\<close> (\<open>add\<close>),
  \<open>delete\<close> and \<open>clear\<close> with byte-bearing keys. Then \<open>size\<close> is the number of
  distinct byte contents that were there or were inserted, and have not been deleted
  since; for a new container, the number of distinct contents inserted and not yet
  deleted. Inserting a key whose content is present leaves \<open>size\<close> as it is. This holds
  of a BufferMap and of a BufferSet.
\<close>

theorem size_accounting:
  assumes "BufferMap_state h m" and "BufferSet_state h s"
    and "list_all (usable_key h) (concat (map map_op_keys mops))"
    and "list_all (usable_key h) (concat (map set_op_keys sops))"
  shows "BufferMap_size (BufferMap_run h m mops) =
           card (map_present (bytes_of ` set (BufferMap_keys m)) mops) \<and>
         BufferSet_size (BufferSet_run h s sops) =
           card (set_present (bytes_of ` set (BufferSet_keys s)) sops) \<and>
         BufferMap_size (BufferMap_run h [] mops) = card (map_present {} mops) \<and>
         BufferSet_size (BufferSet_run h [] sops) = card (set_present {} sops) \<and>
         (usable_key h k \<and> bytes_of k \<in> bytes_of ` set (BufferMap_keys m) \<longrightarrow>
            BufferMap_size (snd (BufferMap_set h m k v)) = BufferMap_size m) \<and>
         (usable_key h k \<and> bytes_of k \<in> bytes_of ` set (BufferSet_keys s) \<longrightarrow>
            BufferSet_size (snd (BufferSet_add h s k)) = BufferSet_size s)"
proof -
  have one: "BufferMap_size (BufferMap_run h m mops) =
      card (map_present (bytes_of ` set (BufferMap_keys m)) mops)"
    using assms(1) BufferMap_state_canon [OF assms(1)] assms(3) by (rule BufferMap_run_size)
  have two: "BufferSet_size (BufferSet_run h s sops) =
      card (set_present (bytes_of ` set (BufferSet_keys s)) sops)"
    using assms(2) BufferSet_state_canon [OF assms(2)] assms(4) by (rule BufferSet_run_size)
  have three: "BufferMap_size (BufferMap_run h [] mops) = card (map_present {} mops)"
    by (rule BufferMap_run_size [OF BufferMap_state_empty _ assms(3)]) simp
  have four: "BufferSet_size (BufferSet_run h [] sops) = card (set_present {} sops)"
    by (rule BufferSet_run_size [OF BufferSet_state_empty _ assms(4)]) simp
  have five: "BufferMap_size (snd (BufferMap_set h m k v)) = BufferMap_size m"
    if "usable_key h k \<and> bytes_of k \<in> bytes_of ` set (BufferMap_keys m)"
  proof -
    from that have "latin1 (bytes_of k) \<in> set (map fst m)"
      by (simp only: BufferMap_state_canon [OF assms(1)]) (rule imageI, simp)
    then have "Map_has m (latin1 (bytes_of k))"
      by (simp only: Map_has_iff)
    with that show ?thesis
      by (simp add: BufferMap_set_def toBinary_usable BufferMap_size_def Map_size_def
          Map_set_length)
  qed
  have six: "BufferSet_size (snd (BufferSet_add h s k)) = BufferSet_size s"
    if "usable_key h k \<and> bytes_of k \<in> bytes_of ` set (BufferSet_keys s)"
  proof -
    from that have "latin1 (bytes_of k) \<in> set (map fst s)"
      by (simp only: BufferSet_state_canon [OF assms(2)]) (rule imageI, simp)
    then have "Map_has s (latin1 (bytes_of k))"
      by (simp only: Map_has_iff)
    with that show ?thesis
      by (simp add: BufferSet_add_def toBinary_usable BufferSet_size_def Map_size_def
          Map_set_length)
  qed
  from one two three four five six show ?thesis by blast
qed

theorem size_accounting_witness:
  "BufferMap_state True [([9], BufferItem (seq 1 [9]) JNull)] \<and> BufferSet_state True [([9], seq 1 [9])] \<and>
   list_all (usable_key True) (concat (map map_op_keys [MapSet (seq 2 [0, 1, 2]) (JNumber 42), MapSet (window 3 [9] [0, 1, 2] [7]) (JNumber 43),
      MapSet (seq 4 [5]) JNull, MapDelete (seq 5 [5])])) \<and>
   list_all (usable_key True) (concat (map set_op_keys [SetAdd (seq 2 []), SetAdd (seq 3 []), SetClear, SetAdd (whole 4 [])])) \<and>
   BufferMap_size (BufferMap_run True [([9], BufferItem (seq 1 [9]) JNull)] [MapSet (seq 2 [0, 1, 2]) (JNumber 42), MapSet (window 3 [9] [0, 1, 2] [7]) (JNumber 43),
      MapSet (seq 4 [5]) JNull, MapDelete (seq 5 [5])]) = 2 \<and>
   card (map_present (bytes_of ` set (BufferMap_keys [([9], BufferItem (seq 1 [9]) JNull)])) [MapSet (seq 2 [0, 1, 2]) (JNumber 42), MapSet (window 3 [9] [0, 1, 2] [7]) (JNumber 43),
      MapSet (seq 4 [5]) JNull, MapDelete (seq 5 [5])]) = 2 \<and>
   BufferSet_size (BufferSet_run True [([9], seq 1 [9])] [SetAdd (seq 2 []), SetAdd (seq 3 []), SetClear, SetAdd (whole 4 [])]) = 1 \<and>
   card (set_present (bytes_of ` set (BufferSet_keys [([9], seq 1 [9])])) [SetAdd (seq 2 []), SetAdd (seq 3 []), SetClear, SetAdd (whole 4 [])]) = 1 \<and>
   BufferMap_size (BufferMap_run True [] [MapSet (seq 2 [0, 1, 2]) (JNumber 42), MapSet (window 3 [9] [0, 1, 2] [7]) (JNumber 43),
      MapSet (seq 4 [5]) JNull, MapDelete (seq 5 [5])]) = 1 \<and>
   card (map_present {} [MapSet (seq 2 [0, 1, 2]) (JNumber 42), MapSet (window 3 [9] [0, 1, 2] [7]) (JNumber 43),
      MapSet (seq 4 [5]) JNull, MapDelete (seq 5 [5])]) = 1 \<and>
   BufferSet_size (BufferSet_run True [] [SetAdd (seq 2 []), SetAdd (seq 3 []), SetClear, SetAdd (whole 4 [])]) = 1 \<and>
   card (set_present {} [SetAdd (seq 2 []), SetAdd (seq 3 []), SetClear, SetAdd (whole 4 [])]) = 1 \<and>
   usable_key True (seq 7 [9]) \<and>
   bytes_of (seq 7 [9]) \<in> bytes_of ` set (BufferMap_keys [([9], BufferItem (seq 1 [9]) JNull)]) \<and>
   bytes_of (seq 7 [9]) \<in> bytes_of ` set (BufferSet_keys [([9], seq 1 [9])]) \<and>
   BufferMap_size (snd (BufferMap_set True [([9], BufferItem (seq 1 [9]) JNull)] (seq 7 [9]) JUndefined)) = BufferMap_size [([9], BufferItem (seq 1 [9]) JNull)] \<and>
   BufferSet_size (snd (BufferSet_add True [([9], seq 1 [9])] (seq 7 [9]))) = BufferSet_size [([9], seq 1 [9])]"
proof -
  have st: "BufferMap_state True [([9], BufferItem (seq 1 [9]) JNull)]" "BufferSet_state True [([9], seq 1 [9])]"
    by (simp_all add: BufferMap_state_def BufferSet_state_def run_defs example_defs)
  have ops: "list_all (usable_key True) (concat (map map_op_keys [MapSet (seq 2 [0, 1, 2]) (JNumber 42), MapSet (window 3 [9] [0, 1, 2] [7]) (JNumber 43),
      MapSet (seq 4 [5]) JNull, MapDelete (seq 5 [5])]))"
    "list_all (usable_key True) (concat (map set_op_keys [SetAdd (seq 2 []), SetAdd (seq 3 []), SetClear, SetAdd (whole 4 [])]))"
    by (simp_all add: usable_key_def example_defs)
  have k: "usable_key True (seq 7 [9])"
    "bytes_of (seq 7 [9]) \<in> bytes_of ` set (BufferMap_keys [([9], BufferItem (seq 1 [9]) JNull)])"
    "bytes_of (seq 7 [9]) \<in> bytes_of ` set (BufferSet_keys [([9], seq 1 [9])])"
    by (simp_all add: usable_key_def BufferMap_keys_def BufferSet_keys_def Map_values_def
        example_defs)
  have c: "card (map_present (bytes_of ` set (BufferMap_keys [([9], BufferItem (seq 1 [9]) JNull)])) [MapSet (seq 2 [0, 1, 2]) (JNumber 42), MapSet (window 3 [9] [0, 1, 2] [7]) (JNumber 43),
      MapSet (seq 4 [5]) JNull, MapDelete (seq 5 [5])]) = 2"
    "card (set_present (bytes_of ` set (BufferSet_keys [([9], seq 1 [9])])) [SetAdd (seq 2 []), SetAdd (seq 3 []), SetClear, SetAdd (whole 4 [])]) = 1"
    "card (map_present {} [MapSet (seq 2 [0, 1, 2]) (JNumber 42), MapSet (window 3 [9] [0, 1, 2] [7]) (JNumber 43),
      MapSet (seq 4 [5]) JNull, MapDelete (seq 5 [5])]) = 1"
    "card (set_present {} [SetAdd (seq 2 []), SetAdd (seq 3 []), SetClear, SetAdd (whole 4 [])]) = 1"
    by (simp_all add: BufferMap_keys_def BufferSet_keys_def Map_values_def example_defs)
  note w = size_accounting [OF st ops, of "seq 7 [9]" JUndefined]
  from w c have sizes: "BufferMap_size (BufferMap_run True [([9], BufferItem (seq 1 [9]) JNull)] [MapSet (seq 2 [0, 1, 2]) (JNumber 42), MapSet (window 3 [9] [0, 1, 2] [7]) (JNumber 43),
      MapSet (seq 4 [5]) JNull, MapDelete (seq 5 [5])]) = 2"
    "BufferSet_size (BufferSet_run True [([9], seq 1 [9])] [SetAdd (seq 2 []), SetAdd (seq 3 []), SetClear, SetAdd (whole 4 [])]) = 1"
    "BufferMap_size (BufferMap_run True [] [MapSet (seq 2 [0, 1, 2]) (JNumber 42), MapSet (window 3 [9] [0, 1, 2] [7]) (JNumber 43),
      MapSet (seq 4 [5]) JNull, MapDelete (seq 5 [5])]) = 1"
    "BufferSet_size (BufferSet_run True [] [SetAdd (seq 2 []), SetAdd (seq 3 []), SetClear, SetAdd (whole 4 [])]) = 1"
    by simp_all
  from w k have dup:
    "BufferMap_size (snd (BufferMap_set True [([9], BufferItem (seq 1 [9]) JNull)] (seq 7 [9]) JUndefined)) = BufferMap_size [([9], BufferItem (seq 1 [9]) JNull)]"
    "BufferSet_size (snd (BufferSet_add True [([9], seq 1 [9])] (seq 7 [9]))) = BufferSet_size [([9], seq 1 [9])]"
    by blast+
  from st ops c sizes k dup show ?thesis by blast
qed

section \<open>\<open>forEach\<close>\<close>

lemma BufferMap_forEach_loop_record:
  "BufferMap_forEach_loop record_call self m items w =
     (Inr (), w @ map (\<lambda>item. (self, item_value item, item_key item, m)) items)"
  by (induction items arbitrary: w) (simp_all add: record_call_def)

lemma BufferSet_forEach_loop_record:
  "BufferSet_forEach_loop record_call self s ks w =
     (Inr (), w @ map (\<lambda>key. (self, key, key, s)) ks)"
  by (induction ks arbitrary: w) (simp_all add: record_call_def)

lemma BufferMap_forEach_loop_returns:
  assumes "\<And>a b c x. fst (cb self a b c x) = Inr ()"
  shows "BufferMap_forEach_loop cb self m items w =
     (Inr (), foldl (\<lambda>x item. snd (cb self (item_value item) (item_key item) m x)) w items)"
proof (induction items arbitrary: w)
  case Nil
  show ?case by simp
next
  case (Cons item items)
  obtain w' where "cb self (item_value item) (item_key item) m w = (Inr (), w')"
    using assms [of "item_value item" "item_key item" m w]
    by (cases "cb self (item_value item) (item_key item) m w") simp
  then show ?case by (simp add: Cons.IH)
qed

lemma BufferSet_forEach_loop_returns:
  assumes "\<And>a b c x. fst (cb self a b c x) = Inr ()"
  shows "BufferSet_forEach_loop cb self s ks w =
     (Inr (), foldl (\<lambda>x key. snd (cb self key key s x)) w ks)"
proof (induction ks arbitrary: w)
  case Nil
  show ?case by simp
next
  case (Cons key ks)
  obtain w' where "cb self key key s w = (Inr (), w')"
    using assms [of key key s w] by (cases "cb self key key s w") simp
  then show ?case by (simp add: Cons.IH)
qed

text \<open>
  C8. In every container state, \<open>forEach(func, self)\<close> with a first argument that is
  not a function throws the TypeError of an invalid callback; no entry is visited (the
  state of the rest of the program is as before) and the container is as before. With
  a function it calls \<open>func.call(self, value, key, this)\<close> for a BufferMap, and
  \<open>func.call(self, key, key, this)\<close> for a BufferSet, once for each entry, in iteration
  order: a callback that writes its calls down has written exactly these, and with any
  callback that returns every time the state at the end is the one reached by running
  it over the entries from first to last.
\<close>

theorem forEach_contract:
  "(typeof func \<noteq> ''function'' \<longrightarrow>
      BufferMap_forEach call m func self w =
        (Inl (TypeError (typeof func @ '' is not a function'')), m, w) \<and>
      BufferSet_forEach call' s func self w' =
        (Inl (TypeError (typeof func @ '' is not a function'')), s, w')) \<and>
   BufferMap_forEach (\<lambda>f. record_call) m (JFunction f) self log =
     (Inr (), m, log @ map (\<lambda>(key, v). (self, v, key, m)) (BufferMap_entries m)) \<and>
   BufferSet_forEach (\<lambda>f. record_call) s (JFunction f) self log' =
     (Inr (), s, log' @ map (\<lambda>key. (self, key, key, s)) (BufferSet_keys s)) \<and>
   ((\<forall>a b c x. fst (call f self a b c x) = Inr ()) \<longrightarrow>
      BufferMap_forEach call m (JFunction f) self w =
        (Inr (), m, foldl (\<lambda>x (key, v). snd (call f self v key m x)) w (BufferMap_entries m))) \<and>
   ((\<forall>a b c x. fst (call' f self a b c x) = Inr ()) \<longrightarrow>
      BufferSet_forEach call' s (JFunction f) self w' =
        (Inr (), s, foldl (\<lambda>x key. snd (call' f self key key s x)) w' (BufferSet_keys s)))"
proof -
  have err: "BufferMap_forEach call m func self w =
        (Inl (TypeError (typeof func @ '' is not a function'')), m, w) \<and>
      BufferSet_forEach call' s func self w' =
        (Inl (TypeError (typeof func @ '' is not a function'')), s, w')"
    if "typeof func \<noteq> ''function''"
    using that by (cases func) (simp_all add: BufferMap_forEach_def BufferSet_forEach_def)
  have rec_map: "BufferMap_forEach (\<lambda>f. record_call) m (JFunction f) self log =
     (Inr (), m, log @ map (\<lambda>(key, v). (self, v, key, m)) (BufferMap_entries m))"
    by (simp add: BufferMap_forEach_def BufferMap_forEach_loop_record BufferMap_entries_def o_def)
  have rec_set: "BufferSet_forEach (\<lambda>f. record_call) s (JFunction f) self log' =
     (Inr (), s, log' @ map (\<lambda>key. (self, key, key, s)) (BufferSet_keys s))"
    by (simp add: BufferSet_forEach_def BufferSet_forEach_loop_record BufferSet_keys_def)
  have all_map: "BufferMap_forEach call m (JFunction f) self w =
        (Inr (), m, foldl (\<lambda>x (key, v). snd (call f self v key m x)) w (BufferMap_entries m))"
    if "\<forall>a b c x. fst (call f self a b c x) = Inr ()"
  proof -
    from that have "\<And>a b c x. fst (call f self a b c x) = Inr ()" by blast
    then show ?thesis
      by (simp add: BufferMap_forEach_def BufferMap_forEach_loop_returns BufferMap_entries_def
          foldl_map)
  qed
  have all_set: "BufferSet_forEach call' s (JFunction f) self w' =
        (Inr (), s, foldl (\<lambda>x key. snd (call' f self key key s x)) w' (BufferSet_keys s))"
    if "\<forall>a b c x. fst (call' f self a b c x) = Inr ()"
  proof -
    from that have "\<And>a b c x. fst (call' f self a b c x) = Inr ()" by blast
    then show ?thesis
      by (simp add: BufferSet_forEach_def BufferSet_forEach_loop_returns BufferSet_keys_def)
  qed
  from err rec_map rec_set all_map all_set show ?thesis by blast
qed

theorem forEach_contract_witness:
  "typeof (JNumber 3) \<noteq> ''function'' \<and>
   BufferMap_forEach (\<lambda>f. record_call) [([1], BufferItem (seq 1 [1]) (JNumber 1)), ([2], BufferItem (seq 2 [2]) (JNumber 2))] (JNumber 3) JNull [] =
     (Inl (TypeError ''number is not a function''), [([1], BufferItem (seq 1 [1]) (JNumber 1)), ([2], BufferItem (seq 2 [2]) (JNumber 2))], []) \<and>
   BufferSet_forEach (\<lambda>f. record_call) [([2], seq 2 [2]), ([3], seq 3 [3])] (JNumber 3) JNull [] =
     (Inl (TypeError ''number is not a function''), [([2], seq 2 [2]), ([3], seq 3 [3])], []) \<and>
   BufferMap_forEach (\<lambda>f. record_call) [([1], BufferItem (seq 1 [1]) (JNumber 1)), ([2], BufferItem (seq 2 [2]) (JNumber 2))] (JFunction 0) JNull [] =
     (Inr (), [([1], BufferItem (seq 1 [1]) (JNumber 1)), ([2], BufferItem (seq 2 [2]) (JNumber 2))],
      [(JNull, JNumber 1, seq 1 [1], [([1], BufferItem (seq 1 [1]) (JNumber 1)), ([2], BufferItem (seq 2 [2]) (JNumber 2))]),
       (JNull, JNumber 2, seq 2 [2], [([1], BufferItem (seq 1 [1]) (JNumber 1)), ([2], BufferItem (seq 2 [2]) (JNumber 2))])]) \<and>
   BufferSet_forEach (\<lambda>f. record_call) [([2], seq 2 [2]), ([3], seq 3 [3])] (JFunction 0) JNull [] =
     (Inr (), [([2], seq 2 [2]), ([3], seq 3 [3])],
      [(JNull, seq 2 [2], seq 2 [2], [([2], seq 2 [2]), ([3], seq 3 [3])]), (JNull, seq 3 [3], seq 3 [3], [([2], seq 2 [2]), ([3], seq 3 [3])])]) \<and>
   (\<forall>a b c x. fst (record_call JNull a b (c :: BufferMap) x) = Inr ()) \<and>
   (\<forall>a b c x. fst (record_call JNull a b (c :: BufferSet) x) = Inr ()) \<and>
   BufferMap_forEach (\<lambda>f. record_call) [([1], BufferItem (seq 1 [1]) (JNumber 1)), ([2], BufferItem (seq 2 [2]) (JNumber 2))] (JFunction 0) JNull [] =
     (Inr (), [([1], BufferItem (seq 1 [1]) (JNumber 1)), ([2], BufferItem (seq 2 [2]) (JNumber 2))],
      foldl (\<lambda>x (key, v). snd (record_call JNull v key [([1], BufferItem (seq 1 [1]) (JNumber 1)), ([2], BufferItem (seq 2 [2]) (JNumber 2))] x)) []
        (BufferMap_entries [([1], BufferItem (seq 1 [1]) (JNumber 1)), ([2], BufferItem (seq 2 [2]) (JNumber 2))])) \<and>
   BufferSet_forEach (\<lambda>f. record_call) [([2], seq 2 [2]), ([3], seq 3 [3])] (JFunction 0) JNull [] =
     (Inr (), [([2], seq 2 [2]), ([3], seq 3 [3])],
      foldl (\<lambda>x key. snd (record_call JNull key key [([2], seq 2 [2]), ([3], seq 3 [3])] x)) [] (BufferSet_keys [([2], seq 2 [2]), ([3], seq 3 [3])]))"
proof -
  have ty: "typeof (JNumber 3) \<noteq> ''function''"
    and msg: "typeof (JNumber 3) @ '' is not a function'' = ''number is not a function''"
    by simp_all
  have ret: "\<forall>a b c x. fst (record_call JNull a b (c :: BufferMap) x) = Inr ()"
    "\<forall>a b c x. fst (record_call JNull a b (c :: BufferSet) x) = Inr ()"
    by (simp_all add: record_call_def)
  have e: "map (\<lambda>(key, v). (JNull, v, key, [([1], BufferItem (seq 1 [1]) (JNumber 1)), ([2], BufferItem (seq 2 [2]) (JNumber 2))])) (BufferMap_entries [([1], BufferItem (seq 1 [1]) (JNumber 1)), ([2], BufferItem (seq 2 [2]) (JNumber 2))]) =
      [(JNull, JNumber 1, seq 1 [1], [([1], BufferItem (seq 1 [1]) (JNumber 1)), ([2], BufferItem (seq 2 [2]) (JNumber 2))]),
       (JNull, JNumber 2, seq 2 [2], [([1], BufferItem (seq 1 [1]) (JNumber 1)), ([2], BufferItem (seq 2 [2]) (JNumber 2))])]"
    "map (\<lambda>key. (JNull, key, key, [([2], seq 2 [2]), ([3], seq 3 [3])])) (BufferSet_keys [([2], seq 2 [2]), ([3], seq 3 [3])]) =
      [(JNull, seq 2 [2], seq 2 [2], [([2], seq 2 [2]), ([3], seq 3 [3])]), (JNull, seq 3 [3], seq 3 [3], [([2], seq 2 [2]), ([3], seq 3 [3])])]"
    by (simp_all add: BufferMap_entries_def BufferSet_keys_def Map_values_def)
  note w = forEach_contract [of "JNumber 3" "\<lambda>f. record_call" "[([1], BufferItem (seq 1 [1]) (JNumber 1)), ([2], BufferItem (seq 2 [2]) (JNumber 2))]" JNull "[]"
      "\<lambda>f. record_call" "[([2], seq 2 [2]), ([3], seq 3 [3])]" "[]" 0 "[]" "[]"]
  from w ty msg have err:
    "BufferMap_forEach (\<lambda>f. record_call) [([1], BufferItem (seq 1 [1]) (JNumber 1)), ([2], BufferItem (seq 2 [2]) (JNumber 2))] (JNumber 3) JNull [] =
       (Inl (TypeError ''number is not a function''), [([1], BufferItem (seq 1 [1]) (JNumber 1)), ([2], BufferItem (seq 2 [2]) (JNumber 2))], [])"
    "BufferSet_forEach (\<lambda>f. record_call) [([2], seq 2 [2]), ([3], seq 3 [3])] (JNumber 3) JNull [] =
       (Inl (TypeError ''number is not a function''), [([2], seq 2 [2]), ([3], seq 3 [3])], [])"
    by simp_all
  from w e have calls:
    "BufferMap_forEach (\<lambda>f. record_call) [([1], BufferItem (seq 1 [1]) (JNumber 1)), ([2], BufferItem (seq 2 [2]) (JNumber 2))] (JFunction 0) JNull [] =
     (Inr (), [([1], BufferItem (seq 1 [1]) (JNumber 1)), ([2], BufferItem (seq 2 [2]) (JNumber 2))],
      [(JNull, JNumber 1, seq 1 [1], [([1], BufferItem (seq 1 [1]) (JNumber 1)), ([2], BufferItem (seq 2 [2]) (JNumber 2))]),
       (JNull, JNumber 2, seq 2 [2], [([1], BufferItem (seq 1 [1]) (JNumber 1)), ([2], BufferItem (seq 2 [2]) (JNumber 2))])])"
    "BufferSet_forEach (\<lambda>f. record_call) [([2], seq 2 [2]), ([3], seq 3 [3])] (JFunction 0) JNull [] =
     (Inr (), [([2], seq 2 [2]), ([3], seq 3 [3])],
      [(JNull, seq 2 [2], seq 2 [2], [([2], seq 2 [2]), ([3], seq 3 [3])]), (JNull, seq 3 [3], seq 3 [3], [([2], seq 2 [2]), ([3], seq 3 [3])])])"
    by simp_all
  from w ret have folds:
    "BufferMap_forEach (\<lambda>f. record_call) [([1], BufferItem (seq 1 [1]) (JNumber 1)), ([2], BufferItem (seq 2 [2]) (JNumber 2))] (JFunction 0) JNull [] =
     (Inr (), [([1], BufferItem (seq 1 [1]) (JNumber 1)), ([2], BufferItem (seq 2 [2]) (JNumber 2))],
      foldl (\<lambda>x (key, v). snd (record_call JNull v key [([1], BufferItem (seq 1 [1]) (JNumber 1)), ([2], BufferItem (seq 2 [2]) (JNumber 2))] x)) []
        (BufferMap_entries [([1], BufferItem (seq 1 [1]) (JNumber 1)), ([2], BufferItem (seq 2 [2]) (JNumber 2))]))"
    "BufferSet_forEach (\<lambda>f. record_call) [([2], seq 2 [2]), ([3], seq 3 [3])] (JFunction 0) JNull [] =
     (Inr (), [([2], seq 2 [2]), ([3], seq 3 [3])],
      foldl (\<lambda>x key. snd (record_call JNull key key [([2], seq 2 [2]), ([3], seq 3 [3])] x)) [] (BufferSet_keys [([2], seq 2 [2]), ([3], seq 3 [3])]))"
    by blast+
  from ty err calls ret folds show ?thesis by blast
qed

section \<open>The materializers\<close>

lemma BufferMap_toKeys_loop_eq: "BufferMap_toKeys_loop items out = out @ map item_key items"
  by (induction items arbitrary: out) simp_all

lemma BufferMap_toValues_loop_eq: "BufferMap_toValues_loop items out = out @ map item_value items"
  by (induction items arbitrary: out) simp_all

lemma BufferSet_toKeys_loop_eq: "BufferSet_toKeys_loop ks out = out @ ks"
  by (induction ks arbitrary: out) simp_all

text \<open>
  C9. In every container state, \<open>toKeys()\<close> of a BufferMap is the list that \<open>keys()\<close>
  yields, \<open>toValues()\<close> and \<open>toArray()\<close> are both the list that \<open>values()\<close> yields;
  \<open>toArray()\<close>, \<open>toKeys()\<close> and \<open>toValues()\<close> of a BufferSet are all the list of the
  stored key objects in the order of the native Map, which is what \<open>keys()\<close> and
  \<open>values()\<close> yield.
\<close>

theorem materializers_agree:
  "BufferMap_toKeys m = BufferMap_keys m \<and>
   BufferMap_toValues m = BufferMap_values m \<and>
   BufferMap_toArray m = BufferMap_values m \<and>
   BufferSet_toArray s = map snd s \<and>
   BufferSet_toKeys s = map snd s \<and>
   BufferSet_toValues s = map snd s \<and>
   BufferSet_keys s = map snd s \<and>
   BufferSet_values s = map snd s"
  by (simp add: BufferMap_toKeys_def BufferMap_toValues_def BufferMap_toArray_def
      BufferMap_keys_def BufferMap_values_def BufferSet_toArray_def BufferSet_toKeys_def
      BufferSet_toValues_def BufferSet_keys_def BufferSet_values_def Map_values_def
      BufferMap_toKeys_loop_eq BufferMap_toValues_loop_eq BufferSet_toKeys_loop_eq)

end
